theory Spec2Isabelle
  imports Main "HOL-Library.Sublist"
begin

section \<open>The asynchronous git runner of blame-browse (src/git-reader.c)\<close>

text \<open>
  \<^verbatim>\<open>git-reader.c\<close> spawns \<^verbatim>\<open>git\<close> with two pipes, watches the child and both pipes from
  the GLib main loop and emits the signal \<^verbatim>\<open>completed\<close>. The reader's private struct is
  embedded as a record, every C function as a state-passing HOL function of the same
  name, and the parts of GLib and of the operating system the functions talk to (the
  main loop's sources, the process table, the open pipe ends, the C \<^verbatim>\<open>stdout\<close> stream,
  the signal emissions) as further fields of one record \<open>world\<close>.
\<close>

subsection \<open>Errors, read results, watches and processes\<close>

text \<open>
  \<^verbatim>\<open>GIT_ERROR\<close> and \<^verbatim>\<open>GIT_ERROR_EXIT_STATUS\<close> are declared in \<^verbatim>\<open>git-common.h\<close>, which is not
  among the sources; the domain and the code are kept as symbolic constants, next to
  those of the GLib errors a read or a spawn can report.
\<close>

datatype error_domain = GIT_ERROR | G_IO_CHANNEL_ERROR | G_CONVERT_ERROR | G_SPAWN_ERROR

datatype error_code = GIT_ERROR_EXIT_STATUS | GLib_code int

text \<open>A \<^verbatim>\<open>GError\<close>: domain, code and message.\<close>

datatype gerror = GError (gerror_domain: error_domain) (gerror_code: error_code)
  (gerror_message: string)

text \<open>
  What \<^verbatim>\<open>g_io_channel_read_chars\<close> returns, together with what it stores through its
  out-parameters: the error, or the bytes read into \<^verbatim>\<open>buf\<close>.
\<close>

datatype io_status =
  G_IO_STATUS_ERROR gerror
| G_IO_STATUS_NORMAL string
| G_IO_STATUS_EOF
| G_IO_STATUS_AGAIN

text \<open>
  A source attached to the main loop, named after the callback it dispatches:
  \<^verbatim>\<open>g_child_watch_add (pid, git_reader_on_child_exit, reader)\<close> and the two
  \<^verbatim>\<open>g_io_add_watch\<close> calls of \<^verbatim>\<open>git_reader_start\<close>.
\<close>

datatype watch = ChildWatch nat | StdoutWatch | StderrWatch

text \<open>A child that has not been reaped yet is running or has exited with a wait status.\<close>

datatype proc_state = Running | Exited int

datatype proc = Proc (proc_argv: "string list") (proc_state: proc_state)

text \<open>What \<^verbatim>\<open>g_spawn_async_with_pipes\<close> does is the environment's choice.\<close>

datatype spawn_outcome = SpawnOk | SpawnErr gerror

subsection \<open>The reader's state and its environment\<close>

text \<open>
  \<^verbatim>\<open>struct _GitReaderPrivate\<close>. A \<^verbatim>\<open>GPid\<close>, a source tag and a channel are numbers, 0 being
  the value of the zero-filled instance; a channel is identified with the descriptor it
  wraps.
\<close>

record GitReaderPrivate =
  has_child :: bool
  child_pid :: nat
  child_stdout :: nat
  child_stderr :: nat
  child_watch_source :: nat
  child_stdout_source :: nat
  child_stderr_source :: nat
  child_exit_code :: int
  error_string :: string

record world =
  priv :: GitReaderPrivate
  sources :: "nat \<rightharpoonup> watch"
  next_source :: nat
  procs :: "nat \<rightharpoonup> proc"
  next_pid :: nat
  open_fds :: "nat set"
  next_fd :: nat
  signalled :: "nat list"
  printed :: string
  completed :: "gerror option list"

text \<open>
  \<open>sources\<close> are the sources attached to the main loop, \<open>procs\<close> the children not yet
  reaped, \<open>open_fds\<close> the open pipe ends, \<open>signalled\<close> the pids \<^verbatim>\<open>SIGTERM\<close> was sent to,
  \<open>printed\<close> the bytes written to the C stream \<^verbatim>\<open>stdout\<close>, and \<open>completed\<close> the argument
  of every emission of the signal \<^verbatim>\<open>completed\<close>, oldest first. The three counters
  supply fresh tags, pids and descriptors.
\<close>

text \<open>\<^verbatim>\<open>git_reader_init\<close> on the zero-filled instance, in an empty environment.\<close>

definition git_reader_init :: GitReaderPrivate where
  "git_reader_init =
     \<lparr>has_child = False, child_pid = 0, child_stdout = 0, child_stderr = 0,
      child_watch_source = 0, child_stdout_source = 0, child_stderr_source = 0,
      child_exit_code = 0, error_string = []\<rparr>"

definition git_reader_new :: world where
  "git_reader_new =
     \<lparr>priv = git_reader_init, sources = Map.empty, next_source = 0,
      procs = Map.empty, next_pid = 0, open_fds = {}, next_fd = 2,
      signalled = [], printed = [], completed = []\<rparr>"

subsection \<open>GLib and the operating system\<close>

definition g_source_remove :: "nat \<Rightarrow> world \<Rightarrow> world" where
  "g_source_remove tag w = w\<lparr>sources := (sources w)(tag := None)\<rparr>"

text \<open>\<^verbatim>\<open>g_io_channel_shutdown\<close> followed by \<^verbatim>\<open>g_io_channel_unref\<close>: the descriptor is closed.\<close>

definition g_io_channel_shutdown :: "nat \<Rightarrow> world \<Rightarrow> world" where
  "g_io_channel_shutdown chan w = w\<lparr>open_fds := open_fds w - {chan}\<rparr>"

text \<open>
  \<^verbatim>\<open>waitpid (pid, &status_ret, WNOHANG)\<close> inside its retry loop on \<^verbatim>\<open>EINTR\<close>: the first
  result that is not an interruption. It is 0 for a running child, the pid for an
  exited one, which is reaped, and -1 when there is no such child.
\<close>

definition waitpid_WNOHANG :: "nat \<Rightarrow> world \<Rightarrow> int \<times> world" where
  "waitpid_WNOHANG pid w =
     (case procs w pid of
        None \<Rightarrow> (- 1, w)
      | Some (Proc argv Running) \<Rightarrow> (0, w)
      | Some (Proc argv (Exited st)) \<Rightarrow> (int pid, w\<lparr>procs := (procs w)(pid := None)\<rparr>))"

definition kill_SIGTERM :: "nat \<Rightarrow> world \<Rightarrow> world" where
  "kill_SIGTERM pid w = w\<lparr>signalled := signalled w @ [pid]\<rparr>"

text \<open>
  \<^verbatim>\<open>waitpid (pid, &status_ret, 0)\<close> inside its retry loop: it returns when the child has
  ended, and the child is reaped. The embedding covers the executions in which the
  signalled child ends, so that the call returns.
\<close>

definition waitpid_blocking :: "nat \<Rightarrow> world \<Rightarrow> int \<times> world" where
  "waitpid_blocking pid w =
     (case procs w pid of
        None \<Rightarrow> (- 1, w)
      | Some p \<Rightarrow> (int pid, w\<lparr>procs := (procs w)(pid := None)\<rparr>))"

text \<open>\<^verbatim>\<open>g_signal_emit (reader, client_signals[COMPLETED], 0, error)\<close>.\<close>

definition g_signal_emit_completed :: "gerror option \<Rightarrow> world \<Rightarrow> world" where
  "g_signal_emit_completed error w = w\<lparr>completed := completed w @ [error]\<rparr>"

text \<open>
  \<^verbatim>\<open>isspace\<close> of \<^verbatim>\<open>ctype.h\<close> in the C locale: space, and \<^verbatim>\<open>\t \n \v \f \r\<close>. No byte above
  0x7F is whitespace.
\<close>

definition isspace :: "char \<Rightarrow> bool" where
  "isspace c \<longleftrightarrow> c = CHR 0x20 \<or> c = CHR 0x09 \<or> c = CHR 0x0A \<or> c = CHR 0x0B
     \<or> c = CHR 0x0C \<or> c = CHR 0x0D"

text \<open>
  \<^verbatim>\<open>g_string_truncate (string, len)\<close>: its parameter is a \<^verbatim>\<open>gsize\<close>, so the signed \<open>len\<close>
  of the caller arrives modulo \<open>2 ^ 64\<close>, and the string keeps \<^verbatim>\<open>MIN (len, string->len)\<close>
  bytes.
\<close>

definition g_string_truncate :: "string \<Rightarrow> int \<Rightarrow> string" where
  "g_string_truncate s len = take (min (nat (len mod 2 ^ 64)) (length s)) s"

text \<open>What \<^verbatim>\<open>%s\<close> prints of a \<^verbatim>\<open>GString\<close>'s bytes: the bytes before the first NUL.\<close>

definition c_str :: "string \<Rightarrow> string" where
  "c_str s = takeWhile (\<lambda>c. c \<noteq> CHR 0x00) s"

subsection \<open>The functions of git-reader.c\<close>

definition git_reader_close_process :: "bool \<Rightarrow> world \<Rightarrow> world" where
  "git_reader_close_process kill_child w =
     (if has_child (priv w) then
        let w1 = w\<lparr>priv := (priv w)\<lparr>has_child := False\<rparr>\<rparr>;
            w2 = (if child_stdout_source (priv w1) \<noteq> 0
                  then g_source_remove (child_stdout_source (priv w1)) w1 else w1);
            w3 = (if child_stderr_source (priv w2) \<noteq> 0
                  then g_source_remove (child_stderr_source (priv w2)) w2 else w2);
            w4 = g_io_channel_shutdown (child_stdout (priv w3)) w3;
            w5 = g_io_channel_shutdown (child_stderr (priv w4)) w4
        in if child_pid (priv w5) \<noteq> 0 then
             let w8 =
               (if kill_child then
                  let w6 = g_source_remove (child_watch_source (priv w5)) w5;
                      (wait_ret, w7) = waitpid_WNOHANG (child_pid (priv w6)) w6
                  in if wait_ret = 0
                     then snd (waitpid_blocking (child_pid (priv w7))
                                 (kill_SIGTERM (child_pid (priv w7)) w7))
                     else w7
                else w5)
             in w8\<lparr>priv := (priv w8)\<lparr>child_pid := 0\<rparr>\<rparr>
           else w5
      else w)"

definition git_reader_dispose :: "world \<Rightarrow> world" where
  "git_reader_dispose w = git_reader_close_process True w"

text \<open>
  The loop of \<^verbatim>\<open>git_reader_check_complete\<close>,
  \<^verbatim>\<open>for (len = error_string->len - 1; len > 0 && isspace (error_string->str[len]); len--);\<close>
  with \<open>len\<close> the \<^verbatim>\<open>gssize\<close> of the source: it starts at the length minus one, which is
  -1 for the empty string, and the index read is always inside the string.
\<close>

function trim_loop :: "string \<Rightarrow> int \<Rightarrow> int" where
  "trim_loop str len =
     (if len > 0 \<and> isspace (str ! nat len) then trim_loop str (len - 1) else len)"
  by pat_completeness auto
termination
  by (relation "measure (\<lambda>(str, len). nat len)") auto

declare trim_loop.simps [simp del]

definition git_reader_check_complete :: "world \<Rightarrow> world" where
  "git_reader_check_complete w =
     (if child_pid (priv w) = 0 \<and> child_stdout_source (priv w) = 0
         \<and> child_stderr_source (priv w) = 0 then
        let w1 = git_reader_close_process False w in
        if child_exit_code (priv w1) \<noteq> 0 then
          let len = trim_loop (error_string (priv w1))
                      (int (length (error_string (priv w1))) - 1);
              w2 = w1\<lparr>priv := (priv w1)
                     \<lparr>error_string := g_string_truncate (error_string (priv w1)) len\<rparr>\<rparr>;
              error =
                (if len > 0
                 then GError GIT_ERROR GIT_ERROR_EXIT_STATUS
                        (''Error invoking git: '' @ c_str (error_string (priv w2)))
                 else GError GIT_ERROR GIT_ERROR_EXIT_STATUS ''Error invoking git'')
          in g_signal_emit_completed (Some error) w2
        else g_signal_emit_completed None w1
      else w)"

text \<open>
  The child-watch callback gets the wait status of the child (256 times the exit code
  for a child that exited) and stores it as it is. \<^verbatim>\<open>g_spawn_close_pid\<close> does nothing
  on Unix.
\<close>

definition git_reader_on_child_exit :: "nat \<Rightarrow> int \<Rightarrow> world \<Rightarrow> world" where
  "git_reader_on_child_exit pid status w =
     git_reader_check_complete
       (w\<lparr>priv := (priv w)\<lparr>child_pid := 0, child_exit_code := status\<rparr>\<rparr>)"

definition git_reader_on_read_error :: "gerror \<Rightarrow> world \<Rightarrow> world" where
  "git_reader_on_read_error error w =
     g_signal_emit_completed (Some error) (git_reader_close_process True w)"

text \<open>
  The two watch callbacks take the result of their \<^verbatim>\<open>g_io_channel_read_chars\<close> and
  return \<^verbatim>\<open>ret\<close> with the new state. On data the stdout callback writes
  \<^verbatim>\<open>got stdout: "\<close>, the bytes and \<^verbatim>\<open>"\n\<close> to the C stream \<^verbatim>\<open>stdout\<close>.
\<close>

definition got_stdout :: "string \<Rightarrow> string" where
  "got_stdout buf = ''got stdout: '' @ [CHR 0x22] @ buf @ [CHR 0x22, CHR 0x0A]"

definition git_reader_on_child_stdout :: "io_status \<Rightarrow> world \<Rightarrow> bool \<times> world" where
  "git_reader_on_child_stdout st w =
     (case st of
        G_IO_STATUS_ERROR error \<Rightarrow> (False, git_reader_on_read_error error w)
      | G_IO_STATUS_NORMAL buf \<Rightarrow> (True, w\<lparr>printed := printed w @ got_stdout buf\<rparr>)
      | G_IO_STATUS_EOF \<Rightarrow>
          (False, git_reader_check_complete
                    (w\<lparr>priv := (priv w)\<lparr>child_stdout_source := 0\<rparr>\<rparr>))
      | G_IO_STATUS_AGAIN \<Rightarrow> (True, w))"

definition git_reader_on_child_stderr :: "io_status \<Rightarrow> world \<Rightarrow> bool \<times> world" where
  "git_reader_on_child_stderr st w =
     (case st of
        G_IO_STATUS_ERROR error \<Rightarrow> (False, git_reader_on_read_error error w)
      | G_IO_STATUS_NORMAL buf \<Rightarrow>
          (True, w\<lparr>priv := (priv w)\<lparr>error_string := error_string (priv w) @ buf\<rparr>\<rparr>)
      | G_IO_STATUS_EOF \<Rightarrow>
          (False, git_reader_check_complete
                    (w\<lparr>priv := (priv w)\<lparr>child_stderr_source := 0\<rparr>\<rparr>))
      | G_IO_STATUS_AGAIN \<Rightarrow> (True, w))"

text \<open>
  \<^verbatim>\<open>g_spawn_async_with_pipes\<close>: on success a new running child with the given argument
  vector and two new open descriptors; on failure the error, and nothing is stored
  through the out-parameters.
\<close>

definition g_spawn_async_with_pipes ::
  "string list \<Rightarrow> spawn_outcome \<Rightarrow> world \<Rightarrow> (gerror + nat \<times> nat \<times> nat) \<times> world" where
  "g_spawn_async_with_pipes argv outcome w =
     (case outcome of
        SpawnErr e \<Rightarrow> (Inl e, w)
      | SpawnOk \<Rightarrow>
          let pid = Suc (next_pid w);
              stdout_fd = Suc (next_fd w);
              stderr_fd = Suc (Suc (next_fd w))
          in (Inr (pid, stdout_fd, stderr_fd),
              w\<lparr>procs := (procs w)(pid \<mapsto> Proc argv Running), next_pid := pid,
                open_fds := open_fds w \<union> {stdout_fd, stderr_fd}, next_fd := stderr_fd\<rparr>))"

text \<open>\<^verbatim>\<open>g_child_watch_add\<close> and \<^verbatim>\<open>g_io_add_watch\<close>: attach a source under a fresh tag.\<close>

definition g_source_attach :: "watch \<Rightarrow> world \<Rightarrow> nat \<times> world" where
  "g_source_attach k w =
     (let tag = Suc (next_source w)
      in (tag, w\<lparr>sources := (sources w)(tag \<mapsto> k), next_source := tag\<rparr>))"

text \<open>
  \<^verbatim>\<open>git_reader_start (reader, error, ...)\<close> with the variable arguments as a list; its
  two loops over them build the vector \<^verbatim>\<open>git\<close>, the arguments, \<^verbatim>\<open>NULL\<close>. The two
  \<^verbatim>\<open>g_return_val_if_fail\<close> checks are the caller's contract (a reader, and an unset error
  slot). The result is \<open>Inl\<close> of the error stored for the caller when the C function
  returns \<^verbatim>\<open>FALSE\<close>, and \<open>Inr ()\<close> when it returns \<^verbatim>\<open>TRUE\<close>.
\<close>

definition git_reader_start ::
  "world \<Rightarrow> string list \<Rightarrow> spawn_outcome \<Rightarrow> (gerror + unit) \<times> world" where
  "git_reader_start w arg outcome =
     (let w1 = git_reader_close_process True w;
          args = ''git'' # arg
      in case g_spawn_async_with_pipes args outcome w1 of
           (Inl e, w2) \<Rightarrow> (Inl e, w2)
         | (Inr (pid, stdout_fd, stderr_fd), w2) \<Rightarrow>
             let w3 = w2\<lparr>priv := (priv w2)\<lparr>child_pid := pid\<rparr>\<rparr>;
                 (t1, w4) = g_source_attach (ChildWatch (child_pid (priv w3))) w3;
                 w5 = w4\<lparr>priv := (priv w4)\<lparr>child_watch_source := t1, child_stdout := stdout_fd\<rparr>\<rparr>;
                 (t2, w6) = g_source_attach StdoutWatch w5;
                 w7 = w6\<lparr>priv := (priv w6)\<lparr>child_stdout_source := t2, child_stderr := stderr_fd\<rparr>\<rparr>;
                 (t3, w8) = g_source_attach StderrWatch w7;
                 w9 = w8\<lparr>priv := (priv w8)
                        \<lparr>child_stderr_source := t3, has_child := True,
                         error_string := g_string_truncate (error_string (priv w8)) 0\<rparr>\<rparr>
             in (Inr (), w9))"

subsection \<open>The main loop and the child\<close>

text \<open>
  What can happen between two calls of the reader's owner: the child ends with a wait
  status; the main loop dispatches the child watch of an ended child, which GLib has
  reaped, and destroys the source afterwards; the main loop dispatches an I/O watch
  with the result of the callback's read, and destroys the source when the callback
  returns \<^verbatim>\<open>FALSE\<close>. An event that cannot happen in a state has no successor.
\<close>

datatype event =
  ChildExits nat int
| ChildWatchDispatch nat
| IoDispatch nat io_status

definition dispatch_io :: "nat \<Rightarrow> bool \<times> world \<Rightarrow> world" where
  "dispatch_io tag r = (if fst r then snd r else g_source_remove tag (snd r))"

fun step :: "event \<Rightarrow> world \<Rightarrow> world option" where
  "step (ChildExits pid status) w =
     (case procs w pid of
        Some (Proc argv Running) \<Rightarrow>
          Some (w\<lparr>procs := (procs w)(pid \<mapsto> Proc argv (Exited status))\<rparr>)
      | _ \<Rightarrow> None)"
| "step (ChildWatchDispatch tag) w =
     (case sources w tag of
        Some (ChildWatch pid) \<Rightarrow>
          (case procs w pid of
             Some (Proc argv (Exited status)) \<Rightarrow>
               Some (g_source_remove tag
                       (git_reader_on_child_exit pid status
                          (w\<lparr>procs := (procs w)(pid := None)\<rparr>)))
           | _ \<Rightarrow> None)
      | _ \<Rightarrow> None)"
| "step (IoDispatch tag st) w =
     (case sources w tag of
        Some StdoutWatch \<Rightarrow> Some (dispatch_io tag (git_reader_on_child_stdout st w))
      | Some StderrWatch \<Rightarrow> Some (dispatch_io tag (git_reader_on_child_stderr st w))
      | _ \<Rightarrow> None)"

fun run :: "event list \<Rightarrow> world \<Rightarrow> world option" where
  "run [] w = Some w"
| "run (e # es) w = (case step e w of None \<Rightarrow> None | Some w' \<Rightarrow> run es w')"

text \<open>
  The states the reader can be in: a new reader, after any calls of
  \<^verbatim>\<open>git_reader_start\<close> (whatever the spawn does) and of \<^verbatim>\<open>git_reader_dispose\<close>, and
  after any events between them. The handlers connected to \<^verbatim>\<open>completed\<close> are taken
  not to call back into the reader.
\<close>

inductive reachable :: "world \<Rightarrow> bool" where
  new: "reachable git_reader_new"
| start: "reachable w \<Longrightarrow> reachable (snd (git_reader_start w arg outcome))"
| dispose: "reachable w \<Longrightarrow> reachable (git_reader_dispose w)"
| event: "reachable w \<Longrightarrow> step e w = Some w' \<Longrightarrow> reachable w'"

subsection \<open>Reading a sequence of events\<close>

text \<open>
  What a list of events holds: the dispatches of the child watch, the ends of stream
  reported on the watch with a given tag, the hard read errors, the chunks read on a
  given tag, and the wait statuses children ended with.
\<close>

fun is_child_watch :: "event \<Rightarrow> bool" where
  "is_child_watch (ChildWatchDispatch tag) = True"
| "is_child_watch e = False"

fun eof_on :: "nat \<Rightarrow> event \<Rightarrow> bool" where
  "eof_on t (IoDispatch tag G_IO_STATUS_EOF) = (tag = t)"
| "eof_on t e = False"

fun read_error_of :: "event \<Rightarrow> gerror option" where
  "read_error_of (IoDispatch tag (G_IO_STATUS_ERROR e)) = Some e"
| "read_error_of e = None"

fun chunk_on :: "nat \<Rightarrow> event \<Rightarrow> string option" where
  "chunk_on t (IoDispatch tag (G_IO_STATUS_NORMAL buf)) = (if tag = t then Some buf else None)"
| "chunk_on t e = None"

fun exit_status_of :: "event \<Rightarrow> int option" where
  "exit_status_of (ChildExits pid status) = Some status"
| "exit_status_of e = None"

definition read_errors :: "event list \<Rightarrow> gerror list" where
  "read_errors es = List.map_filter read_error_of es"

definition chunks_on :: "nat \<Rightarrow> event list \<Rightarrow> string list" where
  "chunks_on t es = List.map_filter (chunk_on t) es"

definition exit_statuses :: "event list \<Rightarrow> int list" where
  "exit_statuses es = List.map_filter exit_status_of es"

text \<open>
  The three completion signals of the invocation started in \<open>w1\<close> have all been
  recorded: the child watch was dispatched and both of its streams reported their end.
\<close>

definition joined :: "world \<Rightarrow> event list \<Rightarrow> bool" where
  "joined w1 es \<longleftrightarrow>
     list_ex is_child_watch es
     \<and> list_ex (eof_on (child_stdout_source (priv w1))) es
     \<and> list_ex (eof_on (child_stderr_source (priv w1))) es"

text \<open>The buffer with its trailing whitespace removed, as the specification words it.\<close>

definition without_trailing_space :: "string \<Rightarrow> string" where
  "without_trailing_space s = rev (dropWhile isspace (rev s))"

subsection \<open>Proof vocabulary\<close>

text \<open>
  The error \<^verbatim>\<open>git_reader_check_complete\<close> builds from the exit code and the diagnostic
  buffer, as a function of the two (lemma \<open>check_complete_completed\<close> ties it to the
  code).
\<close>

definition exit_error :: "int \<Rightarrow> string \<Rightarrow> gerror option" where
  "exit_error status str =
     (if status \<noteq> 0 then
        let len = trim_loop str (int (length str) - 1)
        in Some (if len > 0
                 then GError GIT_ERROR GIT_ERROR_EXIT_STATUS
                        (''Error invoking git: '' @ c_str (g_string_truncate str len))
                 else GError GIT_ERROR GIT_ERROR_EXIT_STATUS ''Error invoking git'')
      else None)"

text \<open>The sources the private fields account for.\<close>

definition armed :: "GitReaderPrivate \<Rightarrow> nat \<rightharpoonup> watch" where
  "armed p = (\<lambda>tag.
     if tag = 0 then None
     else if tag = child_stdout_source p then Some StdoutWatch
     else if tag = child_stderr_source p then Some StderrWatch
     else if tag = child_watch_source p \<and> child_pid p \<noteq> 0 then Some (ChildWatch (child_pid p))
     else None)"

text \<open>
  The invariant of the reader. While it has a child, the attached sources are exactly
  those its fields name, under distinct tags already handed out, at least one signal is
  outstanding, the only child owned is \<open>child_pid\<close> and the open pipe ends are its two
  channels. Without a child nothing is attached, owned or open.
\<close>

definition reader_inv :: "world \<Rightarrow> bool" where
  "reader_inv w \<longleftrightarrow>
     (if has_child (priv w) then
        sources w = armed (priv w) \<and>
        child_watch_source (priv w) \<noteq> 0 \<and>
        child_watch_source (priv w) \<noteq> child_stdout_source (priv w) \<and>
        child_watch_source (priv w) \<noteq> child_stderr_source (priv w) \<and>
        (child_stdout_source (priv w) = child_stderr_source (priv w)
           \<longrightarrow> child_stdout_source (priv w) = 0) \<and>
        child_watch_source (priv w) \<le> next_source w \<and>
        child_stdout_source (priv w) \<le> next_source w \<and>
        child_stderr_source (priv w) \<le> next_source w \<and>
        (child_pid (priv w) = 0
           \<longrightarrow> child_stdout_source (priv w) \<noteq> 0 \<or> child_stderr_source (priv w) \<noteq> 0) \<and>
        dom (procs w) = (if child_pid (priv w) = 0 then {} else {child_pid (priv w)}) \<and>
        open_fds w = {child_stdout (priv w), child_stderr (priv w)}
      else sources w = Map.empty \<and> procs w = Map.empty \<and> open_fds w = {})"

text \<open>The state right after a successful \<^verbatim>\<open>git_reader_start\<close>.\<close>

definition fresh_invocation :: "world \<Rightarrow> bool" where
  "fresh_invocation w1 \<longleftrightarrow>
     reader_inv w1 \<and> has_child (priv w1) \<and> child_pid (priv w1) \<noteq> 0
     \<and> child_stdout_source (priv w1) \<noteq> 0 \<and> child_stderr_source (priv w1) \<noteq> 0
     \<and> error_string (priv w1) = []
     \<and> (\<exists>argv. procs w1 (child_pid (priv w1)) = Some (Proc argv Running))"

text \<open>
  How the state \<open>w2\<close> reached from \<open>w1\<close> by the events \<open>es\<close> depends on them: what was
  printed, what was emitted, and, while the invocation runs, what the fields hold.
\<close>

definition tracks :: "world \<Rightarrow> event list \<Rightarrow> world \<Rightarrow> bool" where
  "tracks w1 es w2 \<longleftrightarrow>
     printed w2 = printed w1 @ concat (map got_stdout (chunks_on (child_stdout_source (priv w1)) es)) \<and>
     (list_ex is_child_watch es \<longrightarrow> exit_statuses es \<noteq> []) \<and>
     (if read_errors es \<noteq> [] then
        \<not> has_child (priv w2) \<and> completed w2 = completed w1 @ [Some (hd (read_errors es))]
      else if joined w1 es then
        \<not> has_child (priv w2) \<and>
        completed w2 = completed w1 @
          [exit_error (last (exit_statuses es))
             (concat (chunks_on (child_stderr_source (priv w1)) es))]
      else
        has_child (priv w2) \<and> completed w2 = completed w1 \<and>
        child_watch_source (priv w2) = child_watch_source (priv w1) \<and>
        child_stdout_source (priv w2) =
          (if list_ex (eof_on (child_stdout_source (priv w1))) es then 0
           else child_stdout_source (priv w1)) \<and>
        child_stderr_source (priv w2) =
          (if list_ex (eof_on (child_stderr_source (priv w1))) es then 0
           else child_stderr_source (priv w1)) \<and>
        child_pid (priv w2) = (if list_ex is_child_watch es then 0 else child_pid (priv w1)) \<and>
        error_string (priv w2) = concat (chunks_on (child_stderr_source (priv w1)) es) \<and>
        (if list_ex is_child_watch es
         then child_exit_code (priv w2) = last (exit_statuses es)
         else \<exists>argv. procs w2 (child_pid (priv w1)) =
                Some (Proc argv (if exit_statuses es = [] then Running
                                 else Exited (last (exit_statuses es))))))"

subsection \<open>Concrete states and inputs\<close>

text \<open>A new reader on which \<^verbatim>\<open>git blame README\<close> was started, and a spawn error.\<close>

definition blame_started :: world where
  "blame_started = snd (git_reader_start git_reader_new [''blame'', ''README''] SpawnOk)"

definition no_git :: gerror where
  "no_git = GError G_SPAWN_ERROR (GLib_code 8)
     ''Failed to execute child process (No such file or directory)''"


text \<open>The started reader after one chunk of standard error, and a hard read error.\<close>

definition blame_warned :: world where
  "blame_warned =
     dispatch_io 3 (git_reader_on_child_stderr (G_IO_STATUS_NORMAL ''warning: CRLF'') blame_started)"

definition pipe_broken :: gerror where
  "pipe_broken = GError G_IO_CHANNEL_ERROR (GLib_code 2) ''Input/output error''"

text \<open>
  Two orders of events for the started reader, with the bytes of standard error and
  the wait status left open: the child watch first, and the end of standard error first.
\<close>

definition exit_first :: "string \<Rightarrow> int \<Rightarrow> event list" where
  "exit_first err status =
     [ChildExits 1 status, ChildWatchDispatch 1, IoDispatch 3 (G_IO_STATUS_NORMAL err),
      IoDispatch 2 (G_IO_STATUS_NORMAL ''ab''), IoDispatch 2 G_IO_STATUS_AGAIN,
      IoDispatch 2 (G_IO_STATUS_NORMAL ''c''), IoDispatch 2 G_IO_STATUS_EOF,
      IoDispatch 3 G_IO_STATUS_EOF]"

definition stderr_first :: "string \<Rightarrow> int \<Rightarrow> event list" where
  "stderr_first err status =
     [IoDispatch 3 (G_IO_STATUS_NORMAL err), IoDispatch 3 G_IO_STATUS_EOF,
      IoDispatch 2 (G_IO_STATUS_NORMAL ''abc''), ChildExits 1 status,
      IoDispatch 2 G_IO_STATUS_EOF, ChildWatchDispatch 1]"

section \<open>Lemmas about the functions\<close>

subsection \<open>Teardown and the completion check\<close>

lemma inv_new: "reader_inv git_reader_new"
  by (simp add: reader_inv_def git_reader_new_def git_reader_init_def)

lemma close_idle: "\<not> has_child (priv w) \<Longrightarrow> git_reader_close_process k w = w"
  by (simp add: git_reader_close_process_def)

lemmas os_defs = g_source_remove_def g_io_channel_shutdown_def waitpid_WNOHANG_def
  waitpid_blocking_def kill_SIGTERM_def

lemma close_priv:
  "has_child (priv w) \<Longrightarrow>
   priv (git_reader_close_process k w) = (priv w)\<lparr>has_child := False, child_pid := 0\<rparr>"
  by (simp add: git_reader_close_process_def Let_def os_defs
      split: option.split proc.split proc_state.split prod.split)

lemma close_completed: "completed (git_reader_close_process k w) = completed w"
  by (simp add: git_reader_close_process_def Let_def os_defs
      split: option.split proc.split proc_state.split prod.split)

lemma close_printed: "printed (git_reader_close_process k w) = printed w"
  by (simp add: git_reader_close_process_def Let_def os_defs
      split: option.split proc.split proc_state.split prod.split)

lemma close_open_fds:
  "has_child (priv w) \<Longrightarrow>
   open_fds (git_reader_close_process k w) = open_fds w - {child_stdout (priv w), child_stderr (priv w)}"
  by (auto simp add: git_reader_close_process_def Let_def os_defs
      split: option.split proc.split proc_state.split prod.split)

lemma close_sources:
  "has_child (priv w) \<Longrightarrow>
   sources (git_reader_close_process k w) =
     (\<lambda>tag. if tag \<noteq> 0 \<and> (tag = child_stdout_source (priv w) \<or> tag = child_stderr_source (priv w))
              \<or> (k \<and> child_pid (priv w) \<noteq> 0 \<and> tag = child_watch_source (priv w))
            then None else sources w tag)"
  by (auto simp add: git_reader_close_process_def Let_def os_defs fun_eq_iff
      split: option.split proc.split proc_state.split prod.split)

lemma close_procs:
  "has_child (priv w) \<Longrightarrow>
   procs (git_reader_close_process k w) =
     (if k \<and> child_pid (priv w) \<noteq> 0 then (procs w)(child_pid (priv w) := None) else procs w)"
  by (auto simp add: git_reader_close_process_def Let_def os_defs fun_eq_iff
      split: option.split proc.split proc_state.split prod.split)

lemma close_signalled:
  "has_child (priv w) \<Longrightarrow>
   signalled (git_reader_close_process k w) =
     (if k \<and> child_pid (priv w) \<noteq> 0 \<and> (\<exists>argv. procs w (child_pid (priv w)) = Some (Proc argv Running))
      then signalled w @ [child_pid (priv w)] else signalled w)"
  by (auto simp add: git_reader_close_process_def Let_def os_defs fun_eq_iff
      split: option.split proc.split proc_state.split prod.split)

lemma check_complete_wait:
  "child_pid (priv w) \<noteq> 0 \<or> child_stdout_source (priv w) \<noteq> 0 \<or> child_stderr_source (priv w) \<noteq> 0
   \<Longrightarrow> git_reader_check_complete w = w"
  by (auto simp: git_reader_check_complete_def)

lemma close_exit_code: "child_exit_code (priv (git_reader_close_process k w)) = child_exit_code (priv w)"
  by (cases "has_child (priv w)") (simp_all add: close_priv close_idle)

lemma close_error_string: "error_string (priv (git_reader_close_process k w)) = error_string (priv w)"
  by (cases "has_child (priv w)") (simp_all add: close_priv close_idle)

lemma check_complete_completed:
  "child_pid (priv w) = 0 \<Longrightarrow> child_stdout_source (priv w) = 0 \<Longrightarrow> child_stderr_source (priv w) = 0
   \<Longrightarrow> completed (git_reader_check_complete w) =
       completed w @ [exit_error (child_exit_code (priv w)) (error_string (priv w))]"
  by (simp add: git_reader_check_complete_def Let_def g_signal_emit_completed_def
      close_exit_code close_error_string close_completed exit_error_def)

lemma check_complete_fire:
  assumes "child_pid (priv w) = 0" "child_stdout_source (priv w) = 0" "child_stderr_source (priv w) = 0"
    and "has_child (priv w)"
  shows "\<not> has_child (priv (git_reader_check_complete w))"
    and "sources (git_reader_check_complete w) = sources w"
    and "procs (git_reader_check_complete w) = procs w"
    and "open_fds (git_reader_check_complete w) = open_fds w - {child_stdout (priv w), child_stderr (priv w)}"
    and "printed (git_reader_check_complete w) = printed w"
  using assms
  by (auto simp add: git_reader_check_complete_def Let_def g_signal_emit_completed_def
      close_priv close_sources close_procs close_open_fds close_printed fun_eq_iff)

subsection \<open>Every event keeps the invariant\<close>

lemma step_exits:
  "step (ChildExits pid st) w = Some w' \<longleftrightarrow>
     (\<exists>argv. procs w pid = Some (Proc argv Running)
        \<and> w' = w\<lparr>procs := (procs w)(pid \<mapsto> Proc argv (Exited st))\<rparr>)"
  by (auto split: option.splits proc.splits proc_state.splits)

lemma inv_step_exits:
  assumes "reader_inv w" "step (ChildExits pid st) w = Some w'"
  shows "reader_inv w'"
proof -
  from assms(2) [unfolded step_exits] obtain argv
    where p: "procs w pid = Some (Proc argv Running)"
    and w': "w' = w\<lparr>procs := (procs w)(pid \<mapsto> Proc argv (Exited st))\<rparr>"
    by blast
  from p have "pid \<in> dom (procs w)" by blast
  then have "insert pid (dom (procs w)) = dom (procs w)" by (rule insert_absorb)
  with assms(1) p show ?thesis by (auto simp: reader_inv_def w' split: if_splits)
qed

lemma armed_child:
  "armed p tag = Some (ChildWatch pid) \<longleftrightarrow>
     tag \<noteq> 0 \<and> tag \<noteq> child_stdout_source p \<and> tag \<noteq> child_stderr_source p
     \<and> tag = child_watch_source p \<and> child_pid p \<noteq> 0 \<and> pid = child_pid p"
  by (auto simp: armed_def)

lemma armed_stdout:
  "armed p tag = Some StdoutWatch \<longleftrightarrow> tag \<noteq> 0 \<and> tag = child_stdout_source p"
  by (auto simp: armed_def)

lemma armed_stderr:
  "armed p tag = Some StderrWatch \<longleftrightarrow>
     tag \<noteq> 0 \<and> tag \<noteq> child_stdout_source p \<and> tag = child_stderr_source p"
  by (auto simp: armed_def)

lemma inv_step_watch:
  assumes "reader_inv w" "step (ChildWatchDispatch tag) w = Some w'"
  shows "reader_inv w'"
proof -
  from assms obtain pid argv st where s: "sources w tag = Some (ChildWatch pid)"
    and p: "procs w pid = Some (Proc argv (Exited st))"
    and w': "w' = g_source_remove tag (git_reader_on_child_exit pid st (w\<lparr>procs := (procs w)(pid := None)\<rparr>))"
    by (auto split: option.splits watch.splits proc.splits proc_state.splits)
  from s assms(1) have hc: "has_child (priv w)" by (auto simp: reader_inv_def split: if_splits)
  with s assms(1) have t: "tag = child_watch_source (priv w)" "child_pid (priv w) = pid" "pid \<noteq> 0"
    by (auto simp: reader_inv_def armed_child)
  show ?thesis
  proof (cases "child_stdout_source (priv w) = 0 \<and> child_stderr_source (priv w) = 0")
    case True
    with hc t assms(1) show ?thesis unfolding w' git_reader_on_child_exit_def
      by (auto simp: reader_inv_def g_source_remove_def check_complete_fire armed_def fun_eq_iff)
  next
    case False
    with hc t assms(1) show ?thesis unfolding w' git_reader_on_child_exit_def
      by (auto simp: reader_inv_def g_source_remove_def check_complete_wait armed_def fun_eq_iff)
  qed
qed

lemma armed_error_string: "armed (p\<lparr>error_string := s\<rparr>) = armed p"
  by (simp add: armed_def cong: if_cong)

lemma inv_step_io:
  assumes "reader_inv w" "step (IoDispatch tag st) w = Some w'"
  shows "reader_inv w'"
proof -
  from assms have hc: "has_child (priv w)"
    by (auto simp: reader_inv_def split: if_splits option.splits)
  with assms(1) have src: "sources w = armed (priv w)" by (simp add: reader_inv_def)
  from assms(2) consider
    (out) "sources w tag = Some StdoutWatch" "w' = dispatch_io tag (git_reader_on_child_stdout st w)"
    | (err) "sources w tag = Some StderrWatch" "w' = dispatch_io tag (git_reader_on_child_stderr st w)"
    by (auto split: option.splits watch.splits)
  then show ?thesis
  proof cases
    case out
    then have t: "tag \<noteq> 0" "tag = child_stdout_source (priv w)"
      by (simp_all add: src armed_stdout)
    show ?thesis
    proof (cases st)
      case (G_IO_STATUS_ERROR e)
      with hc assms(1) show ?thesis unfolding out(2)
        by (auto simp: reader_inv_def dispatch_io_def git_reader_on_child_stdout_def
            git_reader_on_read_error_def g_signal_emit_completed_def g_source_remove_def
            close_priv close_sources close_procs close_open_fds armed_def fun_eq_iff)
    next
      case (G_IO_STATUS_NORMAL buf)
      with hc assms(1) show ?thesis unfolding out(2)
        by (simp add: reader_inv_def dispatch_io_def git_reader_on_child_stdout_def)
    next
      case G_IO_STATUS_EOF
      show ?thesis
      proof (cases "child_pid (priv w) = 0 \<and> child_stderr_source (priv w) = 0")
        case True
        with hc assms(1) t G_IO_STATUS_EOF show ?thesis unfolding out(2)
          by (auto simp: reader_inv_def dispatch_io_def git_reader_on_child_stdout_def
              g_source_remove_def check_complete_fire armed_def fun_eq_iff)
      next
        case False
        with hc assms(1) t G_IO_STATUS_EOF show ?thesis unfolding out(2)
          by (auto simp: reader_inv_def dispatch_io_def git_reader_on_child_stdout_def
              g_source_remove_def check_complete_wait armed_def fun_eq_iff)
      qed
    next
      case G_IO_STATUS_AGAIN
      with hc assms(1) show ?thesis unfolding out(2)
        by (simp add: reader_inv_def dispatch_io_def git_reader_on_child_stdout_def)
    qed
  next
    case err
    then have t: "tag \<noteq> 0" "tag = child_stderr_source (priv w)" "tag \<noteq> child_stdout_source (priv w)"
      by (simp_all add: src armed_stderr)
    show ?thesis
    proof (cases st)
      case (G_IO_STATUS_ERROR e)
      with hc assms(1) show ?thesis unfolding err(2)
        by (auto simp: reader_inv_def dispatch_io_def git_reader_on_child_stderr_def
            git_reader_on_read_error_def g_signal_emit_completed_def g_source_remove_def
            close_priv close_sources close_procs close_open_fds armed_def fun_eq_iff)
    next
      case (G_IO_STATUS_NORMAL buf)
      with hc assms(1) show ?thesis unfolding err(2)
        by (simp add: reader_inv_def dispatch_io_def git_reader_on_child_stderr_def
            armed_error_string)
    next
      case G_IO_STATUS_EOF
      show ?thesis
      proof (cases "child_pid (priv w) = 0 \<and> child_stdout_source (priv w) = 0")
        case True
        with hc assms(1) t G_IO_STATUS_EOF show ?thesis unfolding err(2)
          by (auto simp: reader_inv_def dispatch_io_def git_reader_on_child_stderr_def
              g_source_remove_def check_complete_fire armed_def fun_eq_iff)
      next
        case False
        with hc assms(1) t G_IO_STATUS_EOF show ?thesis unfolding err(2)
          by (auto simp: reader_inv_def dispatch_io_def git_reader_on_child_stderr_def
              g_source_remove_def check_complete_wait armed_def fun_eq_iff)
      qed
    next
      case G_IO_STATUS_AGAIN
      with hc assms(1) show ?thesis unfolding err(2)
        by (simp add: reader_inv_def dispatch_io_def git_reader_on_child_stderr_def)
    qed
  qed
qed

subsection \<open>Starting and disposing\<close>

lemma close_counters:
  "next_source (git_reader_close_process k w) = next_source w"
  "next_pid (git_reader_close_process k w) = next_pid w"
  "next_fd (git_reader_close_process k w) = next_fd w"
  by (simp_all add: git_reader_close_process_def Let_def os_defs
      split: option.split proc.split proc_state.split prod.split)

lemma inv_close_kill:
  assumes "reader_inv w"
  shows "\<not> has_child (priv (git_reader_close_process True w))"
    and "sources (git_reader_close_process True w) = Map.empty"
    and "procs (git_reader_close_process True w) = Map.empty"
    and "open_fds (git_reader_close_process True w) = {}"
proof -
  show "\<not> has_child (priv (git_reader_close_process True w))"
    by (cases "has_child (priv w)") (simp_all add: close_priv close_idle)
  show "sources (git_reader_close_process True w) = Map.empty"
    using assms by (cases "has_child (priv w)")
      (auto simp: close_sources close_idle reader_inv_def armed_def fun_eq_iff)
  show "procs (git_reader_close_process True w) = Map.empty"
  proof (cases "has_child (priv w)")
    case True
    with assms have d: "dom (procs w) = (if child_pid (priv w) = 0 then {} else {child_pid (priv w)})"
      by (simp add: reader_inv_def)
    have "procs w x = None" if "x \<noteq> child_pid (priv w) \<or> child_pid (priv w) = 0" for x
    proof -
      from that d have "x \<notin> dom (procs w)" by (auto split: if_splits)
      then show ?thesis by blast
    qed
    then show ?thesis using True by (auto simp: close_procs fun_eq_iff)
  next
    case False
    with assms show ?thesis by (simp add: close_idle reader_inv_def)
  qed
  show "open_fds (git_reader_close_process True w) = {}"
    using assms by (cases "has_child (priv w)") (auto simp: close_open_fds close_idle reader_inv_def)
qed

lemma inv_dispose: "reader_inv w \<Longrightarrow> reader_inv (git_reader_dispose w)"
  by (simp add: git_reader_dispose_def reader_inv_def inv_close_kill)

lemma start_failed:
  "git_reader_start w arg (SpawnErr e) = (Inl e, git_reader_close_process True w)"
  by (simp add: git_reader_start_def g_spawn_async_with_pipes_def)

lemma start_ok_result: "fst (git_reader_start w arg SpawnOk) = Inr ()"
  by (simp add: git_reader_start_def g_spawn_async_with_pipes_def g_source_attach_def Let_def
      split: prod.split)

lemma start_result: "fst (git_reader_start w arg outcome) = Inr () \<longleftrightarrow> outcome = SpawnOk"
  by (cases outcome) (simp_all add: start_ok_result start_failed)

lemma g_string_truncate_0: "g_string_truncate s 0 = []"
  by (simp add: g_string_truncate_def)

lemma start_ok_priv:
  "priv (snd (git_reader_start w arg SpawnOk)) =
     (priv (git_reader_close_process True w))
       \<lparr>has_child := True, child_pid := Suc (next_pid w),
        child_stdout := Suc (next_fd w), child_stderr := Suc (Suc (next_fd w)),
        child_watch_source := Suc (next_source w),
        child_stdout_source := Suc (Suc (next_source w)),
        child_stderr_source := Suc (Suc (Suc (next_source w))),
        error_string := []\<rparr>"
  by (simp add: git_reader_start_def g_spawn_async_with_pipes_def g_source_attach_def Let_def
      close_counters g_string_truncate_0 split: prod.split)

lemma start_ok_env:
  "sources (snd (git_reader_start w arg SpawnOk)) =
     (sources (git_reader_close_process True w))
       (Suc (next_source w) \<mapsto> ChildWatch (Suc (next_pid w)),
        Suc (Suc (next_source w)) \<mapsto> StdoutWatch,
        Suc (Suc (Suc (next_source w))) \<mapsto> StderrWatch)"
  "procs (snd (git_reader_start w arg SpawnOk)) =
     (procs (git_reader_close_process True w))(Suc (next_pid w) \<mapsto> Proc (''git'' # arg) Running)"
  "open_fds (snd (git_reader_start w arg SpawnOk)) =
     open_fds (git_reader_close_process True w) \<union> {Suc (next_fd w), Suc (Suc (next_fd w))}"
  "completed (snd (git_reader_start w arg SpawnOk)) = completed w"
  "printed (snd (git_reader_start w arg SpawnOk)) = printed w"
  "next_source (snd (git_reader_start w arg SpawnOk)) = Suc (Suc (Suc (next_source w)))"
  by (simp_all add: git_reader_start_def g_spawn_async_with_pipes_def g_source_attach_def Let_def
      close_counters close_completed close_printed split: prod.split)

lemma inv_start: 
  assumes "reader_inv w" shows "reader_inv (snd (git_reader_start w arg outcome))"
proof (cases outcome)
  case SpawnOk
  show ?thesis unfolding SpawnOk
    by (auto simp: reader_inv_def start_ok_priv start_ok_env inv_close_kill [OF assms]
        armed_def fun_eq_iff)
next
  case (SpawnErr e)
  show ?thesis unfolding SpawnErr
    by (simp add: start_failed reader_inv_def inv_close_kill [OF assms])
qed

lemma inv_step: "reader_inv w \<Longrightarrow> step e w = Some w' \<Longrightarrow> reader_inv w'"
  by (cases e) (auto intro: inv_step_exits inv_step_watch inv_step_io)

lemma reachable_inv: "reachable w \<Longrightarrow> reader_inv w"
  by (induction rule: reachable.induct) (auto intro: inv_new inv_start inv_dispose inv_step)

lemma reachable_run: "reachable w \<Longrightarrow> run es w = Some w' \<Longrightarrow> reachable w'"
  by (induction es arbitrary: w) (auto split: option.splits intro: reachable.event)

lemma run_snoc:
  "run (es @ [e]) w = (case run es w of None \<Rightarrow> None | Some w' \<Rightarrow> step e w')"
  by (induction es arbitrary: w) (auto split: option.splits)

lemma idle_no_step: "reader_inv w \<Longrightarrow> \<not> has_child (priv w) \<Longrightarrow> step e w = None"
  by (cases e) (auto simp: reader_inv_def)

subsection \<open>What a run leaves behind\<close>

lemma map_filter_snoc:
  "List.map_filter f (xs @ [x]) =
     List.map_filter f xs @ (case f x of None \<Rightarrow> [] | Some y \<Rightarrow> [y])"
  by (simp add: List.map_filter_def split: option.split)

lemmas trace_snoc = read_errors_def chunks_on_def exit_statuses_def map_filter_snoc joined_def

lemma tracks_start: "fresh_invocation w1 \<Longrightarrow> tracks w1 [] w1"
  by (auto simp: tracks_def fresh_invocation_def read_errors_def chunks_on_def exit_statuses_def
      joined_def List.map_filter_def)

lemma tracks_exits:
  assumes f: "fresh_invocation w1" and t: "tracks w1 es wm" and i: "reader_inv wm"
    and hc: "has_child (priv wm)"
    and s: "step (ChildExits pid st) wm = Some w2"
  shows "tracks w1 (es @ [ChildExits pid st]) w2"
proof -
  from s [unfolded step_exits] obtain argv
    where p: "procs wm pid = Some (Proc argv Running)"
    and w2: "w2 = wm\<lparr>procs := (procs wm)(pid \<mapsto> Proc argv (Exited st))\<rparr>"
    by blast
  from p have "pid \<in> dom (procs wm)" by blast
  with i hc have pid: "child_pid (priv wm) = pid" "pid \<noteq> 0"
    by (auto simp: reader_inv_def split: if_splits)
  from t hc have run: "read_errors es = []" "\<not> joined w1 es"
    by (auto simp: tracks_def split: if_splits)
  with t pid hc p have "\<not> list_ex is_child_watch es" "child_pid (priv w1) = pid" "exit_statuses es = []"
    by (auto simp: tracks_def split: if_splits)
  with t run pid hc show ?thesis
    by (auto simp: tracks_def w2 trace_snoc)
qed

lemma tracks_running:
  "tracks w1 es wm \<Longrightarrow> has_child (priv wm) \<Longrightarrow> read_errors es = [] \<and> \<not> joined w1 es"
  by (auto simp: tracks_def split: if_splits)

lemma tracks_watch:
  assumes f: "fresh_invocation w1" and t: "tracks w1 es wm" and i: "reader_inv wm"
    and hc: "has_child (priv wm)"
    and s: "step (ChildWatchDispatch tag) wm = Some w2"
  shows "tracks w1 (es @ [ChildWatchDispatch tag]) w2"
proof -
  from s obtain pid argv st where src: "sources wm tag = Some (ChildWatch pid)"
    and p: "procs wm pid = Some (Proc argv (Exited st))"
    and w2: "w2 = g_source_remove tag (git_reader_on_child_exit pid st (wm\<lparr>procs := (procs wm)(pid := None)\<rparr>))"
    by (auto split: option.splits watch.splits proc.splits proc_state.splits)
  from src i hc have tg: "tag = child_watch_source (priv wm)" "child_pid (priv wm) = pid" "pid \<noteq> 0"
    by (auto simp: reader_inv_def armed_child)
  note run = tracks_running [OF t hc]
  with t tg hc p have st: "\<not> list_ex is_child_watch es" "child_pid (priv w1) = pid"
    "exit_statuses es \<noteq> []" "last (exit_statuses es) = st"
    by (auto simp: tracks_def split: if_splits)
  show ?thesis
  proof (cases "child_stdout_source (priv wm) = 0 \<and> child_stderr_source (priv wm) = 0")
    case True
    with f t run hc st have j: "joined w1 (es @ [ChildWatchDispatch tag])"
      by (auto simp: tracks_def trace_snoc fresh_invocation_def split: if_splits)
    from True t run hc st j show ?thesis unfolding w2 git_reader_on_child_exit_def
      by (simp add: tracks_def g_source_remove_def check_complete_fire check_complete_completed
          read_errors_def chunks_on_def exit_statuses_def map_filter_snoc)
  next
    case False
    with f t run hc st have j: "\<not> joined w1 (es @ [ChildWatchDispatch tag])"
      by (auto simp: tracks_def trace_snoc fresh_invocation_def split: if_splits)
    from False t run hc st j show ?thesis unfolding w2 git_reader_on_child_exit_def
      by (auto simp add: tracks_def g_source_remove_def check_complete_wait
          read_errors_def chunks_on_def exit_statuses_def map_filter_snoc)
  qed
qed

lemma fresh_tags:
  "fresh_invocation w1 \<Longrightarrow>
     child_stdout_source (priv w1) \<noteq> child_stderr_source (priv w1)
     \<and> child_stdout_source (priv w1) \<noteq> 0 \<and> child_stderr_source (priv w1) \<noteq> 0
     \<and> child_pid (priv w1) \<noteq> 0"
  by (auto simp: fresh_invocation_def reader_inv_def)

lemma tracks_stdout:
  assumes f: "fresh_invocation w1" and t: "tracks w1 es wm" and i: "reader_inv wm"
    and hc: "has_child (priv wm)"
    and src: "sources wm tag = Some StdoutWatch"
  shows "tracks w1 (es @ [IoDispatch tag st]) (dispatch_io tag (git_reader_on_child_stdout st wm))"
proof -
  note run = tracks_running [OF t hc]
  from src i hc have tg: "tag \<noteq> 0" "tag = child_stdout_source (priv wm)"
    by (auto simp: reader_inv_def armed_stdout)
  with t run hc have t2: "tag = child_stdout_source (priv w1)"
    "\<not> list_ex (eof_on (child_stdout_source (priv w1))) es"
    by (auto simp: tracks_def split: if_splits)
  note ft = fresh_tags [OF f]
  show ?thesis
  proof (cases st)
    case (G_IO_STATUS_ERROR e)
    with t run hc show ?thesis
      by (simp add: tracks_def dispatch_io_def git_reader_on_child_stdout_def
          git_reader_on_read_error_def g_signal_emit_completed_def g_source_remove_def
          close_priv close_completed close_printed
          read_errors_def chunks_on_def exit_statuses_def map_filter_snoc)
  next
    case (G_IO_STATUS_NORMAL buf)
    with t run hc t2 ft show ?thesis
      by (auto simp add: tracks_def dispatch_io_def git_reader_on_child_stdout_def trace_snoc)
  next
    case G_IO_STATUS_EOF
    show ?thesis
    proof (cases "child_pid (priv wm) = 0 \<and> child_stderr_source (priv wm) = 0")
      case True
      with t run hc t2 ft have j: "joined w1 (es @ [IoDispatch tag G_IO_STATUS_EOF])"
        by (auto simp: tracks_def trace_snoc split: if_splits)
      from True t run hc t2 ft j show ?thesis unfolding G_IO_STATUS_EOF
        by (auto simp add: tracks_def dispatch_io_def git_reader_on_child_stdout_def
            g_source_remove_def check_complete_fire check_complete_completed
            read_errors_def chunks_on_def exit_statuses_def map_filter_snoc
            split: if_splits)
    next
      case False
      with t run hc t2 ft have j: "\<not> joined w1 (es @ [IoDispatch tag G_IO_STATUS_EOF])"
        by (auto simp: tracks_def trace_snoc split: if_splits)
      from False t run hc t2 ft j show ?thesis unfolding G_IO_STATUS_EOF
        by (auto simp add: tracks_def dispatch_io_def git_reader_on_child_stdout_def
            g_source_remove_def check_complete_wait
            read_errors_def chunks_on_def exit_statuses_def map_filter_snoc)
    qed
  next
    case G_IO_STATUS_AGAIN
    with t run hc t2 ft show ?thesis
      by (auto simp add: tracks_def dispatch_io_def git_reader_on_child_stdout_def trace_snoc)
  qed
qed

lemma tracks_stderr:
  assumes f: "fresh_invocation w1" and t: "tracks w1 es wm" and i: "reader_inv wm"
    and hc: "has_child (priv wm)"
    and src: "sources wm tag = Some StderrWatch"
  shows "tracks w1 (es @ [IoDispatch tag st]) (dispatch_io tag (git_reader_on_child_stderr st wm))"
proof -
  note run = tracks_running [OF t hc]
  from src i hc have tg: "tag \<noteq> 0" "tag = child_stderr_source (priv wm)"
    by (auto simp: reader_inv_def armed_stderr)
  with t run hc have t3: "tag = child_stderr_source (priv w1)"
    "\<not> list_ex (eof_on (child_stderr_source (priv w1))) es"
    by (auto simp: tracks_def split: if_splits)
  note ft = fresh_tags [OF f]
  show ?thesis
  proof (cases st)
    case (G_IO_STATUS_ERROR e)
    with t run hc show ?thesis
      by (simp add: tracks_def dispatch_io_def git_reader_on_child_stderr_def
          git_reader_on_read_error_def g_signal_emit_completed_def g_source_remove_def
          close_priv close_completed close_printed
          read_errors_def chunks_on_def exit_statuses_def map_filter_snoc)
  next
    case (G_IO_STATUS_NORMAL buf)
    with t run hc t3 ft show ?thesis
      by (auto simp add: tracks_def dispatch_io_def git_reader_on_child_stderr_def trace_snoc)
  next
    case G_IO_STATUS_EOF
    show ?thesis
    proof (cases "child_pid (priv wm) = 0 \<and> child_stdout_source (priv wm) = 0")
      case True
      with t run hc t3 ft have j: "joined w1 (es @ [IoDispatch tag G_IO_STATUS_EOF])"
        by (auto simp: tracks_def trace_snoc split: if_splits)
      from True t run hc t3 ft j show ?thesis unfolding G_IO_STATUS_EOF
        by (auto simp add: tracks_def dispatch_io_def git_reader_on_child_stderr_def
            g_source_remove_def check_complete_fire check_complete_completed
            read_errors_def chunks_on_def exit_statuses_def map_filter_snoc
            split: if_splits)
    next
      case False
      with t run hc t3 ft have j: "\<not> joined w1 (es @ [IoDispatch tag G_IO_STATUS_EOF])"
        by (auto simp: tracks_def trace_snoc split: if_splits)
      from False t run hc t3 ft j show ?thesis unfolding G_IO_STATUS_EOF
        by (auto simp add: tracks_def dispatch_io_def git_reader_on_child_stderr_def
            g_source_remove_def check_complete_wait
            read_errors_def chunks_on_def exit_statuses_def map_filter_snoc)
    qed
  next
    case G_IO_STATUS_AGAIN
    with t run hc t3 ft show ?thesis
      by (auto simp add: tracks_def dispatch_io_def git_reader_on_child_stderr_def trace_snoc)
  qed
qed

lemma tracks_step:
  assumes f: "fresh_invocation w1" and t: "tracks w1 es wm" and i: "reader_inv wm"
    and s: "step e wm = Some w2"
  shows "tracks w1 (es @ [e]) w2"
proof -
  from i s have hc: "has_child (priv wm)" using idle_no_step by fastforce
  show ?thesis
  proof (cases e)
    case (ChildExits pid st)
    with f t i hc s show ?thesis by (simp add: tracks_exits del: step.simps)
  next
    case (ChildWatchDispatch tag)
    with f t i hc s show ?thesis by (simp add: tracks_watch del: step.simps)
  next
    case (IoDispatch tag st)
    with s consider
      (out) "sources wm tag = Some StdoutWatch" "w2 = dispatch_io tag (git_reader_on_child_stdout st wm)"
      | (err) "sources wm tag = Some StderrWatch" "w2 = dispatch_io tag (git_reader_on_child_stderr st wm)"
      by (auto split: option.splits watch.splits)
    then show ?thesis
      using f t i hc IoDispatch by cases (simp_all add: tracks_stdout tracks_stderr)
  qed
qed

lemma run_inv: "reader_inv w \<Longrightarrow> run es w = Some w' \<Longrightarrow> reader_inv w'"
  by (induction es arbitrary: w) (auto split: option.splits intro: inv_step)

lemma run_tracks:
  "fresh_invocation w1 \<Longrightarrow> run es w1 = Some w2 \<Longrightarrow> tracks w1 es w2"
proof (induction es arbitrary: w2 rule: rev_induct)
  case Nil
  then show ?case by (simp add: tracks_start)
next
  case (snoc e es)
  from snoc.prems(2) obtain wm where m: "run es w1 = Some wm" and s: "step e wm = Some w2"
    by (auto simp: run_snoc split: option.splits)
  from snoc.prems(1) m have "reader_inv wm" by (auto simp: fresh_invocation_def intro: run_inv)
  with snoc.IH [OF snoc.prems(1) m] snoc.prems(1) s show ?case by (rule_tac tracks_step)
qed

lemma start_fresh:
  "reader_inv w \<Longrightarrow> fresh_invocation (snd (git_reader_start w arg SpawnOk))"
  unfolding fresh_invocation_def
  by (simp add: inv_start start_ok_priv start_ok_env)

subsection \<open>The trimming loop\<close>

lemma trim_loop_le: "trim_loop str n \<le> n"
  by (induction str n rule: trim_loop.induct) (subst trim_loop.simps, auto)

lemma trim_loop_nonneg: "0 \<le> n \<Longrightarrow> 0 \<le> trim_loop str n"
  by (induction str n rule: trim_loop.induct) (subst trim_loop.simps, auto)

lemma trim_loop_stop:
  "0 < trim_loop str n \<Longrightarrow> \<not> isspace (str ! nat (trim_loop str n))"
proof (induction str n rule: trim_loop.induct)
  case (1 str len)
  show ?case
  proof (cases "len > 0 \<and> isspace (str ! nat len)")
    case True
    with 1 show ?thesis by (subst (asm) trim_loop.simps, subst trim_loop.simps) simp
  next
    case False
    then have "trim_loop str len = len" by (subst trim_loop.simps) auto
    with False 1 show ?thesis by auto
  qed
qed

lemma trim_loop_blank:
  "\<forall>c\<in>set str. isspace c \<Longrightarrow> n < int (length str) \<Longrightarrow> trim_loop str n \<le> 0"
proof (induction str n rule: trim_loop.induct)
  case (1 str len)
  show ?case
  proof (cases "len > 0")
    case True
    with 1 have "isspace (str ! nat len)" by simp
    with True 1 show ?thesis by (subst trim_loop.simps) simp
  next
    case False
    then show ?thesis by (subst trim_loop.simps) simp
  qed
qed

lemma takeWhile_stops:
  assumes "j < length xs" "\<not> P (xs ! j)"
  shows "length (takeWhile P xs) \<le> j"
proof (rule ccontr)
  assume "\<not> length (takeWhile P xs) \<le> j"
  then have j: "j < length (takeWhile P xs)" by simp
  then have "takeWhile P xs ! j = xs ! j" by (rule takeWhile_nth)
  moreover from j have "takeWhile P xs ! j \<in> set (takeWhile P xs)" by simp
  ultimately show False using assms(2) by (auto dest: set_takeWhileD)
qed

lemma without_trailing_space_take:
  "without_trailing_space s = take (length s - length (takeWhile isspace (rev s))) s"
proof -
  have "rev s = takeWhile isspace (rev s) @ dropWhile isspace (rev s)" by simp
  then have "s = rev (dropWhile isspace (rev s)) @ rev (takeWhile isspace (rev s))"
    by (metis rev_append rev_rev_ident)
  then have "take (length (rev (dropWhile isspace (rev s)))) s = rev (dropWhile isspace (rev s))"
    by (metis append_eq_conv_conj)
  moreover have "length (takeWhile isspace (rev s)) + length (dropWhile isspace (rev s)) = length s"
    by (metis length_append length_rev takeWhile_dropWhile_id)
  then have "length s - length (takeWhile isspace (rev s)) = length (dropWhile isspace (rev s))"
    by linarith
  ultimately show ?thesis
    by (simp add: without_trailing_space_def)
qed



lemma exit_error_blank:
  assumes "status \<noteq> 0" "\<forall>c\<in>set str. isspace c"
  shows "exit_error status str = Some (GError GIT_ERROR GIT_ERROR_EXIT_STATUS ''Error invoking git'')"
  using assms trim_loop_blank [of str "int (length str) - 1"]
  by (auto simp: exit_error_def Let_def)

lemma exit_error_zero: "exit_error 0 str = None"
  by (simp add: exit_error_def)

lemma bad_object_trim:
  "trim_loop ''fatal: bad object\<newline>   '' 20 = 16"
  by (simp add: trim_loop.simps isspace_def)

lemma bad_object_error:
  "exit_error 256 ''fatal: bad object\<newline>   '' =
     Some (GError GIT_ERROR GIT_ERROR_EXIT_STATUS ''Error invoking git: fatal: bad objec'')"
  by (simp add: exit_error_def Let_def bad_object_trim g_string_truncate_def c_str_def)

lemma idle_run:
  "reader_inv w \<Longrightarrow> \<not> has_child (priv w) \<Longrightarrow> run es w = Some w' \<Longrightarrow> es = [] \<and> w' = w"
  by (cases es) (auto simp: idle_no_step)

lemma blame_started_reachable: "reachable blame_started"
  unfolding blame_started_def by (intro reachable.start reachable.new)

lemma blame_started_priv:
  "priv blame_started =
     \<lparr>has_child = True, child_pid = 1, child_stdout = 3, child_stderr = 4,
      child_watch_source = 1, child_stdout_source = 2, child_stderr_source = 3,
      child_exit_code = 0, error_string = []\<rparr>"
  by (simp add: blame_started_def start_ok_priv close_idle git_reader_new_def git_reader_init_def
      eval_nat_numeral)

lemma blame_started_env:
  "sources blame_started = [1 \<mapsto> ChildWatch 1, 2 \<mapsto> StdoutWatch, 3 \<mapsto> StderrWatch]"
  "procs blame_started = [1 \<mapsto> Proc [''git'', ''blame'', ''README''] Running]"
  "open_fds blame_started = {3, 4}"
  "completed blame_started = []"
  "printed blame_started = []"
  "signalled blame_started = []"
  by (simp_all add: blame_started_def start_ok_env close_idle git_reader_new_def git_reader_init_def
      eval_nat_numeral git_reader_start_def g_spawn_async_with_pipes_def g_source_attach_def Let_def)

text \<open>
  What the loop and the truncation leave of a buffer: the loop stops with \<open>len\<close> at the
  index of the last byte that is not whitespace (or at 0), and the truncation to that
  length drops this byte together with the whitespace after it.
\<close>

lemma trim_loop_skipped:
  "trim_loop str n < i \<Longrightarrow> i \<le> n \<Longrightarrow> isspace (str ! nat i)"
proof (induction str n rule: trim_loop.induct)
  case (1 str len)
  show ?case
  proof (cases "len > 0 \<and> isspace (str ! nat len)")
    case True
    then have eq: "trim_loop str len = trim_loop str (len - 1)"
      by (subst trim_loop.simps) simp
    show ?thesis
    proof (cases "i = len")
      case True
      with \<open>len > 0 \<and> isspace (str ! nat len)\<close> show ?thesis by simp
    next
      case False
      with "1.prems" have "i \<le> len - 1" by simp
      moreover from "1.prems" eq have "trim_loop str (len - 1) < i" by simp
      ultimately show ?thesis using "1.IH" True by blast
    qed
  next
    case False
    then have "trim_loop str len = len" by (subst trim_loop.simps) auto
    with "1.prems" show ?thesis by simp
  qed
qed

lemma kept_butlast:
  assumes "length str < 2 ^ 64"
  shows "g_string_truncate str (trim_loop str (int (length str) - 1)) =
           butlast (without_trailing_space str)"
proof (cases "str = []")
  case True
  then show ?thesis by (simp add: g_string_truncate_def without_trailing_space_def)
next
  case False
  define n where "n = int (length str) - 1"
  define r where "r = trim_loop str n"
  define k where "k = length str - length (takeWhile isspace (rev str))"
  from False have n0: "0 \<le> n" by (cases str) (simp_all add: n_def)
  then have r0: "0 \<le> r" unfolding r_def by (rule trim_loop_nonneg)
  have rn: "r \<le> n" unfolding r_def by (rule trim_loop_le)
  have w: "without_trailing_space str = take k str"
    unfolding k_def by (rule without_trailing_space_take)
  have "nat (n - r) \<le> length (takeWhile isspace (rev str))"
  proof (rule length_takeWhile_less_P_nth)
    show "nat (n - r) \<le> length (rev str)" using r0 n0 by (simp add: n_def)
    show "isspace (rev str ! j)" if "j < nat (n - r)" for j
    proof -
      from that r0 rn have j: "j < length str" by (simp add: n_def)
      then have "rev str ! j = str ! (length str - Suc j)" by (rule rev_nth)
      also have "length str - Suc j = nat (n - int j)" using j by (simp add: n_def)
      finally have "rev str ! j = str ! nat (n - int j)" .
      moreover have "isspace (str ! nat (n - int j))"
        using that by (intro trim_loop_skipped [of str n]) (simp_all add: r_def [symmetric])
      ultimately show ?thesis by simp
    qed
  qed
  then have k_le: "k \<le> nat r + 1" using r0 rn by (simp add: k_def n_def)
  have t: "g_string_truncate str r = take (nat r) str"
  proof -
    from rn assms have "r < 2 ^ 64" by (simp add: n_def)
    with r0 have "r mod 2 ^ 64 = r" by simp
    moreover from rn have "nat r \<le> length str" by (simp add: n_def)
    ultimately show ?thesis by (simp add: g_string_truncate_def)
  qed
  show ?thesis
  proof (cases "0 < r")
    case True
    then have ns: "\<not> isspace (str ! nat r)" unfolding r_def by (rule trim_loop_stop)
    from rn r0 have rl: "nat r < length str" by (simp add: n_def)
    have "rev str ! (length str - 1 - nat r) = str ! nat r"
      using rl by (simp add: rev_nth)
    with ns rl have "length (takeWhile isspace (rev str)) \<le> length str - 1 - nat r"
      by (intro takeWhile_stops) simp_all
    with rl have "nat r + 1 \<le> k" by (simp add: k_def)
    with k_le have "k = Suc (nat r)" by simp
    with rl have "butlast (take k str) = take (nat r) str"
      by (simp add: butlast_take)
    with t w show ?thesis by (simp add: r_def n_def)
  next
    case False
    with r0 have "r = 0" by simp
    with k_le have "k \<le> 1" by simp
    then have "length (butlast (take k str)) = 0" by simp
    then have "butlast (take k str) = []" by blast
    with t w \<open>r = 0\<close> show ?thesis by (simp add: r_def n_def)
  qed
qed

subsection \<open>Whole invocations\<close>

lemma owned_only_child:
  assumes "reader_inv w" "procs w pid = Some p"
  shows "has_child (priv w) \<and> pid = child_pid (priv w) \<and> pid \<noteq> 0"
proof -
  from assms(2) have "pid \<in> dom (procs w)" by blast
  with assms(1) show ?thesis by (auto simp: reader_inv_def split: if_splits)
qed

lemma close_kill_signalled:
  assumes "reader_inv w" "procs w pid = Some (Proc argv Running)"
  shows "pid \<in> set (signalled (git_reader_close_process True w))"
  using owned_only_child [OF assms] assms(2) by (simp add: close_signalled)

lemma owned_at_most_one: "reader_inv w \<Longrightarrow> card (dom (procs w)) \<le> 1"
  by (auto simp: reader_inv_def split: if_splits)

lemma read_error_step:
  assumes "step (IoDispatch tag (G_IO_STATUS_ERROR e)) w = Some w'"
  shows "w' = g_source_remove tag (g_signal_emit_completed (Some e) (git_reader_close_process True w))"
  using assms
  by (auto simp: dispatch_io_def git_reader_on_child_stdout_def git_reader_on_child_stderr_def
      git_reader_on_read_error_def split: option.splits watch.splits)

lemma blame_warned_step:
  "step (IoDispatch 3 (G_IO_STATUS_NORMAL ''warning: CRLF'')) blame_started = Some blame_warned"
  by (simp add: blame_started_env blame_warned_def)

lemma blame_warned_reachable: "reachable blame_warned"
  using blame_started_reachable blame_warned_step by (rule reachable.event)

lemma blame_warned_priv:
  "priv blame_warned = (priv blame_started)\<lparr>error_string := ''warning: CRLF''\<rparr>"
  by (simp add: blame_warned_def dispatch_io_def git_reader_on_child_stderr_def blame_started_priv)

lemma blame_warned_procs: "procs blame_warned = procs blame_started"
  by (simp add: blame_warned_def dispatch_io_def git_reader_on_child_stderr_def)

lemma invocation_fresh:
  "reachable w \<Longrightarrow> fresh_invocation (snd (git_reader_start w arg SpawnOk))"
  by (simp add: reachable_inv start_fresh)

lemma joined_no_read_error:
  assumes f: "fresh_invocation w1" and r: "run es w1 = Some w2" and j: "joined w1 es"
  shows "read_errors es = []"
proof (cases es rule: rev_cases)
  case Nil
  then show ?thesis by (simp add: read_errors_def List.map_filter_def)
next
  case (snoc es' e)
  with r obtain wm where m: "run es' w1 = Some wm" and s: "step e wm = Some w2"
    by (auto simp: run_snoc split: option.splits)
  from f m have i: "reader_inv wm" by (auto simp: fresh_invocation_def intro: run_inv)
  with s have hc: "has_child (priv wm)" using idle_no_step by fastforce
  from tracks_running [OF run_tracks [OF f m] hc]
  have run: "read_errors es' = []" "\<not> joined w1 es'" by simp_all
  show ?thesis
  proof (cases "read_error_of e")
    case None
    with run show ?thesis by (simp add: snoc trace_snoc)
  next
    case (Some x)
    then have "\<not> is_child_watch e" "\<And>t. \<not> eof_on t e"
      by (cases e rule: read_error_of.cases; simp)+
    with j run show ?thesis by (simp add: snoc joined_def)
  qed
qed

lemma joined_result:
  assumes f: "fresh_invocation w1" and r: "run es w1 = Some w2" and j: "joined w1 es"
  shows "exit_statuses es \<noteq> []"
    and "completed w2 = completed w1 @
           [exit_error (last (exit_statuses es))
              (concat (chunks_on (child_stderr_source (priv w1)) es))]"
  using run_tracks [OF f r] joined_no_read_error [OF f r j] j
  by (simp_all add: tracks_def joined_def)

lemma run_emissions:
  assumes f: "fresh_invocation w1" and r: "run es w1 = Some w2"
  shows "completed w2 = completed w1 @
           (if read_errors es \<noteq> [] then [Some (hd (read_errors es))]
            else if joined w1 es
            then [exit_error (last (exit_statuses es))
                    (concat (chunks_on (child_stderr_source (priv w1)) es))]
            else [])"
    and "has_child (priv w2) \<longleftrightarrow> \<not> (joined w1 es \<or> read_errors es \<noteq> [])"
  using run_tracks [OF f r] by (auto simp: tracks_def split: if_splits)

lemmas run_eval = blame_started_env blame_started_priv dispatch_io_def
  git_reader_on_child_exit_def git_reader_on_child_stdout_def git_reader_on_child_stderr_def
  git_reader_check_complete_def git_reader_close_process_def g_source_remove_def
  g_io_channel_shutdown_def g_signal_emit_completed_def Let_def

lemma exit_first_runs: "run (exit_first err status) blame_started \<noteq> None"
  by (simp add: exit_first_def run_eval)

lemma stderr_first_runs: "run (stderr_first err status) blame_started \<noteq> None"
  by (simp add: stderr_first_def run_eval)

lemma exit_first_trace:
  "joined blame_started (exit_first err status)"
  "read_errors (exit_first err status) = []"
  "exit_statuses (exit_first err status) = [status]"
  "chunks_on 3 (exit_first err status) = [err]"
  "chunks_on 2 (exit_first err status) = [''ab'', ''c'']"
  by (simp_all add: exit_first_def joined_def read_errors_def exit_statuses_def chunks_on_def
      List.map_filter_def blame_started_priv)

lemma stderr_first_trace:
  "joined blame_started (stderr_first err status)"
  "read_errors (stderr_first err status) = []"
  "exit_statuses (stderr_first err status) = [status]"
  "chunks_on 3 (stderr_first err status) = [err]"
  "chunks_on 2 (stderr_first err status) = [''abc'']"
  by (simp_all add: stderr_first_def joined_def read_errors_def exit_statuses_def chunks_on_def
      List.map_filter_def blame_started_priv)

lemma invocation_joined:
  assumes "reachable w" and "w1 = snd (git_reader_start w arg SpawnOk)"
    and "run es w1 = Some w2" and "joined w1 es"
  shows "exit_statuses es \<noteq> []"
    and "completed w2 = completed w @
           [exit_error (last (exit_statuses es))
              (concat (chunks_on (child_stderr_source (priv w1)) es))]"
proof -
  from assms(1,2) have f: "fresh_invocation w1" by (simp add: invocation_fresh)
  have c: "completed w1 = completed w" by (simp add: assms(2) start_ok_env)
  from joined_result [OF f assms(3,4)] c
  show "exit_statuses es \<noteq> []"
    and "completed w2 = completed w @
           [exit_error (last (exit_statuses es))
              (concat (chunks_on (child_stderr_source (priv w1)) es))]"
    by simp_all
qed


lemma bad_object_completed:
  "map_option completed (run (exit_first ''fatal: bad object\<newline>   '' 256) blame_started) =
     Some [Some (GError GIT_ERROR GIT_ERROR_EXIT_STATUS ''Error invoking git: fatal: bad objec'')]"
proof -
  have 1: "run (exit_first ''fatal: bad object\<newline>   '' 256) blame_started =
      Some (the (run (exit_first ''fatal: bad object\<newline>   '' 256) blame_started))"
    using exit_first_runs by simp
  from invocation_joined(2) [OF reachable.new blame_started_def 1 exit_first_trace(1)]
  have "completed (the (run (exit_first ''fatal: bad object\<newline>   '' 256) blame_started)) =
      [Some (GError GIT_ERROR GIT_ERROR_EXIT_STATUS ''Error invoking git: fatal: bad objec'')]"
    by (simp add: exit_first_trace blame_started_priv git_reader_new_def bad_object_error)
  with 1 show ?thesis by (metis option.simps(9))
qed

lemma start_after_close:
  "git_reader_start (git_reader_close_process True w) arg outcome = git_reader_start w arg outcome"
proof -
  have "\<not> has_child (priv (git_reader_close_process True w))"
    by (cases "has_child (priv w)") (simp_all add: close_priv close_idle)
  then have "git_reader_close_process True (git_reader_close_process True w) =
      git_reader_close_process True w" by (rule close_idle)
  then show ?thesis by (simp add: git_reader_start_def)
qed

lemma attached_tags:
  assumes "reader_inv w" "sources w tag \<noteq> None"
  shows "tag \<le> next_source w"
proof -
  from assms have hc: "has_child (priv w)" by (auto simp: reader_inv_def split: if_splits)
  with assms show ?thesis by (auto simp: reader_inv_def armed_def split: if_splits)
qed

lemma start_sources_fresh:
  assumes "reader_inv w" "tag \<le> next_source w"
  shows "sources (snd (git_reader_start w arg outcome)) tag = None"
proof (cases outcome)
  case SpawnOk
  with assms show ?thesis by (simp add: start_ok_env inv_close_kill)
next
  case (SpawnErr e)
  with assms show ?thesis by (simp add: start_failed inv_close_kill)
qed

lemma torn_down_silent:
  assumes "reader_inv w" "run es (git_reader_close_process True w) = Some w'"
  shows "completed w' = completed w"
proof -
  from assms(1) have "reader_inv (git_reader_close_process True w)"
    using inv_dispose by (simp add: git_reader_dispose_def)
  from idle_run [OF this inv_close_kill(1) [OF assms(1)] assms(2)] show ?thesis
    by (simp add: close_completed)
qed

lemma start_emissions:
  assumes "reachable w" "run es (snd (git_reader_start w arg outcome)) = Some w2"
  shows "length (completed w2) \<le> length (completed w) + 1"
proof (cases outcome)
  case SpawnOk
  from assms(1) have f: "fresh_invocation (snd (git_reader_start w arg SpawnOk))"
    by (rule invocation_fresh)
  from run_emissions(1) [OF f assms(2) [unfolded SpawnOk]] show ?thesis
    by (simp add: start_ok_env)
next
  case (SpawnErr e)
  from torn_down_silent [OF reachable_inv [OF assms(1)]] assms(2) show ?thesis
    by (simp add: SpawnErr start_failed)
qed

section \<open>The claims\<close>

text \<open>
  C1. After a successful \<^verbatim>\<open>git_reader_start\<close>, whatever events follow, the invocation
  has added exactly one emission of \<^verbatim>\<open>completed\<close> if its three signals (child watch
  dispatched, end of stdout, end of stderr) have all been recorded or a read failed
  hard, and none otherwise; the earlier emissions are untouched, and once it is emitted
  no event of the invocation can be dispatched, so there is never a second one.
\<close>

theorem completed_exactly_once:
  assumes "reachable w" and "w1 = snd (git_reader_start w arg SpawnOk)"
    and "run es w1 = Some w2"
  shows "length (completed w2) =
           length (completed w) + (if joined w1 es \<or> read_errors es \<noteq> [] then 1 else 0)
     \<and> take (length (completed w)) (completed w2) = completed w
     \<and> (joined w1 es \<or> read_errors es \<noteq> [] \<longrightarrow> (\<forall>ev. step ev w2 = None))"
proof -
  from assms(1,2) have f: "fresh_invocation w1" by (simp add: invocation_fresh)
  have c: "completed w1 = completed w" by (simp add: assms(2) start_ok_env)
  note e = run_emissions [OF f assms(3)]
  have i: "reader_inv w2" using f assms(3) by (auto simp: fresh_invocation_def intro: run_inv)
  have "\<forall>ev. step ev w2 = None" if "joined w1 es \<or> read_errors es \<noteq> []"
    using that e(2) idle_no_step [OF i] by simp
  then show ?thesis using e(1) c by auto
qed

theorem completed_exactly_once_witness:
  "run (exit_first ''warning: CRLF'' 0) blame_started \<noteq> None
   \<and> length (completed (the (run (exit_first ''warning: CRLF'' 0) blame_started))) = 1
   \<and> run (take 5 (exit_first ''warning: CRLF'' 0)) blame_started \<noteq> None
   \<and> length (completed (the (run (take 5 (exit_first ''warning: CRLF'' 0)) blame_started))) = 0"
proof -
  have r: "run (exit_first ''warning: CRLF'' 0) blame_started \<noteq> None" by (rule exit_first_runs)
  have r5: "run (take 5 (exit_first ''warning: CRLF'' 0)) blame_started \<noteq> None"
    by (simp add: exit_first_def run_eval)
  have j5: "\<not> joined blame_started (take 5 (exit_first ''warning: CRLF'' 0))"
    "read_errors (take 5 (exit_first ''warning: CRLF'' 0)) = []"
    by (simp_all add: exit_first_def joined_def read_errors_def List.map_filter_def blame_started_priv)
  from r have 1: "run (exit_first ''warning: CRLF'' 0) blame_started =
      Some (the (run (exit_first ''warning: CRLF'' 0) blame_started))" by simp
  from r5 have 2: "run (take 5 (exit_first ''warning: CRLF'' 0)) blame_started =
      Some (the (run (take 5 (exit_first ''warning: CRLF'' 0)) blame_started))" by simp
  from completed_exactly_once [OF reachable.new blame_started_def 1]
    completed_exactly_once [OF reachable.new blame_started_def 2] r r5 j5
  show ?thesis by (simp add: exit_first_trace git_reader_new_def)
qed

text \<open>
  C2. Two runs of the same invocation in which the three completion signals all
  arrive, in whatever order and interleaved with whatever reads, with the same wait
  status and the same bytes of standard error, each add exactly one emission of
  \<^verbatim>\<open>completed\<close>, and the result it carries is the same in both; and as long as a run
  has not recorded all three signals and no read has failed hard, nothing has been
  emitted.
\<close>

theorem join_order_independent:
  assumes "reachable w" and "w1 = snd (git_reader_start w arg SpawnOk)"
    and "run es w1 = Some w2" and "run es' w1 = Some w2'"
    and "joined w1 es" and "joined w1 es'"
    and "exit_statuses es = exit_statuses es'"
    and "concat (chunks_on (child_stderr_source (priv w1)) es) =
         concat (chunks_on (child_stderr_source (priv w1)) es')"
  shows "(\<exists>result. completed w2 = completed w @ [result]
            \<and> completed w2' = completed w @ [result])
     \<and> (\<forall>es0 w0. run es0 w1 = Some w0 \<and> \<not> joined w1 es0 \<and> read_errors es0 = []
           \<longrightarrow> completed w0 = completed w)"
proof -
  from assms(1,2) have f: "fresh_invocation w1" by (simp add: invocation_fresh)
  have c: "completed w1 = completed w" by (simp add: assms(2) start_ok_env)
  have "completed w0 = completed w"
    if "run es0 w1 = Some w0" "\<not> joined w1 es0" "read_errors es0 = []" for es0 w0
    using run_emissions(1) [OF f that(1)] that(2,3) c by simp
  then show ?thesis
    using invocation_joined(2) [OF assms(1,2,3,5)] invocation_joined(2) [OF assms(1,2,4,6)]
      assms(7,8) by auto
qed

theorem join_order_independent_witness:
  "run (exit_first ''fatal: bad object\<newline>   '' 256) blame_started \<noteq> None
   \<and> run (stderr_first ''fatal: bad object\<newline>   '' 256) blame_started \<noteq> None
   \<and> joined blame_started (exit_first ''fatal: bad object\<newline>   '' 256)
   \<and> joined blame_started (stderr_first ''fatal: bad object\<newline>   '' 256)
   \<and> completed (the (run (exit_first ''fatal: bad object\<newline>   '' 256) blame_started)) =
       [Some (GError GIT_ERROR GIT_ERROR_EXIT_STATUS ''Error invoking git: fatal: bad objec'')]
   \<and> completed (the (run (stderr_first ''fatal: bad object\<newline>   '' 256) blame_started)) =
       [Some (GError GIT_ERROR GIT_ERROR_EXIT_STATUS ''Error invoking git: fatal: bad objec'')]
   \<and> run [] blame_started \<noteq> None \<and> \<not> joined blame_started []
   \<and> completed (the (run [] blame_started)) = []"
proof -
  have 1: "run (exit_first ''fatal: bad object\<newline>   '' 256) blame_started =
      Some (the (run (exit_first ''fatal: bad object\<newline>   '' 256) blame_started))"
    using exit_first_runs by simp
  have 2: "run (stderr_first ''fatal: bad object\<newline>   '' 256) blame_started =
      Some (the (run (stderr_first ''fatal: bad object\<newline>   '' 256) blame_started))"
    using stderr_first_runs by simp
  have 3: "\<not> joined blame_started []" "read_errors [] = []"
    by (simp_all add: joined_def read_errors_def List.map_filter_def)
  have e: "exit_statuses (exit_first ''fatal: bad object\<newline>   '' 256) =
      exit_statuses (stderr_first ''fatal: bad object\<newline>   '' 256)"
    by (simp add: exit_first_trace stderr_first_trace)
  have b: "concat (chunks_on (child_stderr_source (priv blame_started))
             (exit_first ''fatal: bad object\<newline>   '' 256)) =
      concat (chunks_on (child_stderr_source (priv blame_started))
             (stderr_first ''fatal: bad object\<newline>   '' 256))"
    by (simp add: exit_first_trace stderr_first_trace blame_started_priv)
  note t = join_order_independent [OF reachable.new blame_started_def 1 2
      exit_first_trace(1) stderr_first_trace(1) e b]
  from t obtain result
    where r1: "completed (the (run (exit_first ''fatal: bad object\<newline>   '' 256) blame_started)) =
        completed git_reader_new @ [result]"
      and r2: "completed (the (run (stderr_first ''fatal: bad object\<newline>   '' 256) blame_started)) =
        completed git_reader_new @ [result]"
    by blast
  from bad_object_completed 1
  have v: "completed (the (run (exit_first ''fatal: bad object\<newline>   '' 256) blame_started)) =
      [Some (GError GIT_ERROR GIT_ERROR_EXIT_STATUS ''Error invoking git: fatal: bad objec'')]"
    by (metis option.sel option.simps(9))
  with r1 have "result =
      Some (GError GIT_ERROR GIT_ERROR_EXIT_STATUS ''Error invoking git: fatal: bad objec'')"
    by (simp add: git_reader_new_def)
  with r2 have v': "completed (the (run (stderr_first ''fatal: bad object\<newline>   '' 256) blame_started)) =
      [Some (GError GIT_ERROR GIT_ERROR_EXIT_STATUS ''Error invoking git: fatal: bad objec'')]"
    by (simp add: git_reader_new_def)
  from t have "run [] blame_started = Some blame_started
      \<and> \<not> joined blame_started [] \<and> read_errors [] = []
      \<longrightarrow> completed blame_started = completed git_reader_new"
    by blast
  with 3 have "completed (the (run [] blame_started)) = []"
    by (simp add: git_reader_new_def)
  with v v' show ?thesis
    using 3 exit_first_runs stderr_first_runs exit_first_trace(1) stderr_first_trace(1)
    by simp
qed




text \<open>
  C4, as stated, fails. The child ends with wait status 0 and its watch is dispatched;
  a chunk of standard error is read; then the next read of standard error fails hard.
  \<^verbatim>\<open>git_reader_on_read_error\<close> emits \<^verbatim>\<open>completed\<close> with the error of the read, so the
  completion of an invocation whose child exited with status 0 carries an error.
\<close>

theorem zero_exit_read_error_counterexample:
  "exit_statuses
     [ChildExits 1 0, ChildWatchDispatch 1, IoDispatch 3 (G_IO_STATUS_NORMAL ''warning: CRLF''),
      IoDispatch 3 (G_IO_STATUS_ERROR pipe_broken)] = [0]
   \<and> map_option completed
     (run [ChildExits 1 0, ChildWatchDispatch 1, IoDispatch 3 (G_IO_STATUS_NORMAL ''warning: CRLF''),
           IoDispatch 3 (G_IO_STATUS_ERROR pipe_broken)] blame_started) = Some [Some pipe_broken]
   \<and> map_option completed
     (run [ChildExits 1 0, ChildWatchDispatch 1, IoDispatch 3 (G_IO_STATUS_NORMAL ''warning: CRLF''),
           IoDispatch 3 (G_IO_STATUS_ERROR pipe_broken)] blame_started) \<noteq> Some [None]"
  by (simp add: run_eval git_reader_on_read_error_def exit_statuses_def List.map_filter_def)

text \<open>
  C4, amended. When the child ends with wait status 0 and the invocation completes
  through the join of its three signals (child watch dispatched, end of stdout, end of
  stderr), the one emission of \<^verbatim>\<open>completed\<close> carries no error, whatever bytes of
  standard error were read into the diagnostic buffer.
\<close>

theorem zero_exit_no_error:
  assumes "reachable w" and "w1 = snd (git_reader_start w arg SpawnOk)"
    and "run es w1 = Some w2" and "joined w1 es"
    and "\<forall>status\<in>set (exit_statuses es). status = 0"
  shows "completed w2 = completed w @ [None]"
proof -
  note j = invocation_joined [OF assms(1-4)]
  from j(1) have "last (exit_statuses es) \<in> set (exit_statuses es)" by simp
  with assms(5) have "last (exit_statuses es) = 0" by blast
  with j(2) show ?thesis by (simp add: exit_error_zero)
qed

theorem zero_exit_no_error_witness:
  "run (stderr_first ''warning: CRLF will be replaced by LF'' 0) blame_started \<noteq> None
   \<and> joined blame_started (stderr_first ''warning: CRLF will be replaced by LF'' 0)
   \<and> chunks_on 3 (stderr_first ''warning: CRLF will be replaced by LF'' 0)
       = [''warning: CRLF will be replaced by LF'']
   \<and> completed (the (run (stderr_first ''warning: CRLF will be replaced by LF'' 0) blame_started))
       = [None]"
proof -
  have 1: "run (stderr_first ''warning: CRLF will be replaced by LF'' 0) blame_started =
      Some (the (run (stderr_first ''warning: CRLF will be replaced by LF'' 0) blame_started))"
    using stderr_first_runs by simp
  from zero_exit_no_error [OF reachable.new blame_started_def 1] stderr_first_runs
  show ?thesis by (simp add: stderr_first_trace git_reader_new_def)
qed

text \<open>
  C5, as stated, fails. The reader has no consumer for standard output; the only thing
  it hands to its caller is the signal \<^verbatim>\<open>completed\<close>. A chunk \<^verbatim>\<open>ab\<close> read from the child's
  standard output is written to the program's own standard output inside
  \<^verbatim>\<open>got stdout: "\<close> and \<^verbatim>\<open>"\<close> with a newline, so what comes out is not the bytes the child
  wrote, and nothing is emitted.
\<close>

theorem stdout_forwarding_counterexample:
  "map_option printed
     (run [IoDispatch 2 (G_IO_STATUS_NORMAL ''ab'')] blame_started) \<noteq> Some ''ab''
   \<and> map_option printed
     (run [IoDispatch 2 (G_IO_STATUS_NORMAL ''ab'')] blame_started) =
       Some (''got stdout: '' @ [CHR 0x22] @ ''ab'' @ [CHR 0x22, CHR 0x0A])
   \<and> map_option completed
     (run [IoDispatch 2 (G_IO_STATUS_NORMAL ''ab'')] blame_started) = Some []"
  by (simp add: blame_started_env dispatch_io_def git_reader_on_child_stdout_def got_stdout_def)

text \<open>
  C5, amended. Every chunk read from the child's standard output is written to the
  program's own standard output, in the order read, each inside \<^verbatim>\<open>got stdout: "\<close> and
  \<^verbatim>\<open>"\<close> with a newline: after any events of an invocation, what was printed since the
  start is the concatenation of the framed chunks read so far.
\<close>

theorem stdout_chunks_printed:
  assumes "reachable w" and "w1 = snd (git_reader_start w arg SpawnOk)"
    and "run es w1 = Some w2"
  shows "printed w2 =
           printed w @ concat (map got_stdout (chunks_on (child_stdout_source (priv w1)) es))"
proof -
  from assms(1,2) have f: "fresh_invocation w1" by (simp add: invocation_fresh)
  have "printed w1 = printed w" by (simp add: assms(2) start_ok_env)
  with run_tracks [OF f assms(3)] show ?thesis by (simp add: tracks_def)
qed

theorem stdout_chunks_printed_witness:
  "run (exit_first [] 0) blame_started \<noteq> None
   \<and> printed (the (run (exit_first [] 0) blame_started)) = got_stdout ''ab'' @ got_stdout ''c''"
proof -
  have 1: "run (exit_first [] 0) blame_started = Some (the (run (exit_first [] 0) blame_started))"
    using exit_first_runs by simp
  from stdout_chunks_printed [OF reachable.new blame_started_def 1] exit_first_runs
  show ?thesis by (simp add: exit_first_trace blame_started_priv git_reader_new_def)
qed

text \<open>
  C6. When the read of a dispatched stdout or stderr watch reports a hard error, the
  callback ends the invocation on the spot, whatever signals are still outstanding:
  \<^verbatim>\<open>completed\<close> is emitted once more, with that error; no source stays attached, both
  pipe ends are closed, the child is gone from the process table, having been sent
  \<^verbatim>\<open>SIGTERM\<close> if it was still running, and no event can be dispatched afterwards.
\<close>

theorem read_error_completes_at_once:
  assumes "reachable w" "step (IoDispatch tag (G_IO_STATUS_ERROR e)) w = Some w'"
  shows "completed w' = completed w @ [Some e]
     \<and> \<not> has_child (priv w') \<and> sources w' = Map.empty \<and> procs w' = Map.empty
     \<and> open_fds w' = {}
     \<and> (\<forall>pid argv. procs w pid = Some (Proc argv Running) \<longrightarrow> pid \<in> set (signalled w'))
     \<and> (\<forall>ev. step ev w' = None)"
proof -
  from assms(1) have i: "reader_inv w" by (rule reachable_inv)
  have i': "reader_inv w'" by (rule reachable_inv [OF reachable.event [OF assms]])
  note w' = read_error_step [OF assms(2)]
  note idle = inv_close_kill [OF i]
  have hc: "\<not> has_child (priv w')"
    by (simp add: w' g_source_remove_def g_signal_emit_completed_def idle)
  have "\<forall>pid argv. procs w pid = Some (Proc argv Running) \<longrightarrow> pid \<in> set (signalled w')"
    using close_kill_signalled [OF i]
    by (auto simp: w' g_source_remove_def g_signal_emit_completed_def)
  moreover have "\<forall>ev. step ev w' = None" using idle_no_step [OF i' hc] by simp
  ultimately show ?thesis using hc
    by (simp add: w' g_source_remove_def g_signal_emit_completed_def idle close_completed)
qed

theorem read_error_completes_at_once_witness:
  "step (IoDispatch 2 (G_IO_STATUS_ERROR pipe_broken)) blame_started \<noteq> None
   \<and> completed (the (step (IoDispatch 2 (G_IO_STATUS_ERROR pipe_broken)) blame_started))
       = [Some pipe_broken]
   \<and> procs blame_started 1 = Some (Proc [''git'', ''blame'', ''README''] Running)
   \<and> 1 \<in> set (signalled (the (step (IoDispatch 2 (G_IO_STATUS_ERROR pipe_broken)) blame_started)))
   \<and> sources (the (step (IoDispatch 2 (G_IO_STATUS_ERROR pipe_broken)) blame_started)) = Map.empty"
proof -
  have s: "step (IoDispatch 2 (G_IO_STATUS_ERROR pipe_broken)) blame_started \<noteq> None"
    by (simp add: blame_started_env)
  then have "step (IoDispatch 2 (G_IO_STATUS_ERROR pipe_broken)) blame_started
      = Some (the (step (IoDispatch 2 (G_IO_STATUS_ERROR pipe_broken)) blame_started))"
    by simp
  from read_error_completes_at_once [OF blame_started_reachable this] s
  show ?thesis by (simp add: blame_started_env)
qed

text \<open>
  C7. When the program cannot be spawned, \<^verbatim>\<open>git_reader_start\<close> returns the failure to its
  caller; afterwards the reader owns no child process and no pid was handed out, no
  stream watch and no child watch is attached, nothing was emitted, no event can be
  dispatched any more and so no later state holds a further emission of \<^verbatim>\<open>completed\<close>.
\<close>

theorem start_spawn_failure:
  assumes "reachable w"
  shows "fst (git_reader_start w arg (SpawnErr e)) = Inl e
     \<and> procs (snd (git_reader_start w arg (SpawnErr e))) = Map.empty
     \<and> next_pid (snd (git_reader_start w arg (SpawnErr e))) = next_pid w
     \<and> sources (snd (git_reader_start w arg (SpawnErr e))) = Map.empty
     \<and> completed (snd (git_reader_start w arg (SpawnErr e))) = completed w
     \<and> (\<forall>ev. step ev (snd (git_reader_start w arg (SpawnErr e))) = None)
     \<and> (\<forall>es w'. run es (snd (git_reader_start w arg (SpawnErr e))) = Some w'
           \<longrightarrow> completed w' = completed w)"
proof -
  let ?w' = "git_reader_close_process True w"
  from assms have i: "reader_inv w" by (rule reachable_inv)
  then have i': "reader_inv ?w'" using inv_dispose by (simp add: git_reader_dispose_def)
  note idle = inv_close_kill [OF i]
  have "completed w' = completed w" if "run es ?w' = Some w'" for es w'
    using idle_run [OF i' idle(1) that] by (simp add: close_completed)
  then have "\<forall>es w'. run es ?w' = Some w' \<longrightarrow> completed w' = completed w"
    by blast
  moreover have "\<forall>ev. step ev ?w' = None"
    using idle_no_step [OF i' idle(1)] by simp
  ultimately show ?thesis
    by (simp add: start_failed idle close_counters close_completed)
qed

theorem start_spawn_failure_witness:
  "fst (git_reader_start git_reader_new [''blame''] (SpawnErr no_git)) = Inl no_git
   \<and> sources (snd (git_reader_start git_reader_new [''blame''] (SpawnErr no_git))) = Map.empty
   \<and> procs (snd (git_reader_start git_reader_new [''blame''] (SpawnErr no_git))) = Map.empty
   \<and> completed (snd (git_reader_start git_reader_new [''blame''] (SpawnErr no_git))) = []
   \<and> run [] (snd (git_reader_start git_reader_new [''blame''] (SpawnErr no_git))) \<noteq> None"
  using start_spawn_failure [OF reachable.new, of "[''blame'']" no_git]
  by (simp add: git_reader_new_def)

text \<open>
  C8. When \<^verbatim>\<open>git_reader_start\<close> is called on a reader that has a child, the call is the
  teardown followed by a start from the torn-down state. After the teardown no source
  is attached, no child is owned (a child still running was sent \<^verbatim>\<open>SIGTERM\<close> and waited
  for), no pipe end is open and nothing was emitted. After the call none of the tags
  attached before it is attached, the reader owns at most one child, as it did before,
  and whatever events follow, at most one emission of \<^verbatim>\<open>completed\<close> is added, the one
  of the invocation just started.
\<close>

theorem restart_discards_prior:
  assumes "reachable w" and "has_child (priv w)"
  shows "git_reader_start w arg outcome =
           git_reader_start (git_reader_close_process True w) arg outcome
     \<and> sources (git_reader_close_process True w) = Map.empty
     \<and> procs (git_reader_close_process True w) = Map.empty
     \<and> open_fds (git_reader_close_process True w) = {}
     \<and> completed (git_reader_close_process True w) = completed w
     \<and> (\<forall>pid argv. procs w pid = Some (Proc argv Running)
           \<longrightarrow> pid \<in> set (signalled (git_reader_close_process True w)))
     \<and> (\<forall>tag. sources w tag \<noteq> None
           \<longrightarrow> sources (snd (git_reader_start w arg outcome)) tag = None)
     \<and> card (dom (procs w)) \<le> 1
     \<and> card (dom (procs (snd (git_reader_start w arg outcome)))) \<le> 1
     \<and> (\<forall>es w2. run es (snd (git_reader_start w arg outcome)) = Some w2
           \<longrightarrow> length (completed w2) \<le> length (completed w) + 1
             \<and> (outcome \<noteq> SpawnOk \<longrightarrow> completed w2 = completed w))"
proof -
  from assms(1) have i: "reader_inv w" by (rule reachable_inv)
  have i': "reader_inv (snd (git_reader_start w arg outcome))" using i by (rule inv_start)
  have "\<forall>pid argv. procs w pid = Some (Proc argv Running)
      \<longrightarrow> pid \<in> set (signalled (git_reader_close_process True w))"
    using close_kill_signalled [OF i] by blast
  moreover have "\<forall>tag. sources w tag \<noteq> None
      \<longrightarrow> sources (snd (git_reader_start w arg outcome)) tag = None"
    using attached_tags [OF i] start_sources_fresh [OF i] by blast
  moreover have "length (completed w2) \<le> length (completed w) + 1
        \<and> (outcome \<noteq> SpawnOk \<longrightarrow> completed w2 = completed w)"
    if r: "run es (snd (git_reader_start w arg outcome)) = Some w2" for es w2
  proof (cases outcome)
    case SpawnOk
    with start_emissions [OF assms(1) r] show ?thesis by simp
  next
    case (SpawnErr e)
    with start_emissions [OF assms(1) r] torn_down_silent [OF i] r show ?thesis
      by (simp add: start_failed)
  qed
  ultimately show ?thesis
    using owned_at_most_one [OF i] owned_at_most_one [OF i']
    by (simp add: start_after_close inv_close_kill [OF i] close_completed)
qed

theorem restart_discards_prior_witness:
  "has_child (priv blame_warned)
   \<and> procs blame_warned 1 = Some (Proc [''git'', ''blame'', ''README''] Running)
   \<and> sources blame_warned 2 = Some StdoutWatch
   \<and> sources (snd (git_reader_start blame_warned [''log''] SpawnOk)) 2 = None
   \<and> procs (git_reader_close_process True blame_warned) = Map.empty
   \<and> 1 \<in> set (signalled (git_reader_close_process True blame_warned))
   \<and> card (dom (procs (snd (git_reader_start blame_warned [''log''] SpawnOk)))) \<le> 1
   \<and> run [] (snd (git_reader_start blame_warned [''log''] SpawnOk)) \<noteq> None
   \<and> length (completed (snd (git_reader_start blame_warned [''log''] SpawnOk)))
       \<le> length (completed blame_warned) + 1"
proof -
  have hc: "has_child (priv blame_warned)"
    by (simp add: blame_warned_priv blame_started_priv)
  have s: "sources blame_warned = sources blame_started"
    by (simp add: blame_warned_def dispatch_io_def git_reader_on_child_stderr_def)
  note t = restart_discards_prior [OF blame_warned_reachable hc, of "[''log'']" SpawnOk]
  from t have "\<forall>pid argv. procs blame_warned pid = Some (Proc argv Running)
           \<longrightarrow> pid \<in> set (signalled (git_reader_close_process True blame_warned))"
    by blast
  then have a: "1 \<in> set (signalled (git_reader_close_process True blame_warned))"
    by (simp add: blame_warned_procs blame_started_env)
  from t have "\<forall>tag. sources blame_warned tag \<noteq> None
           \<longrightarrow> sources (snd (git_reader_start blame_warned [''log''] SpawnOk)) tag = None"
    by blast
  then have b: "sources (snd (git_reader_start blame_warned [''log''] SpawnOk)) 2 = None"
    by (simp add: s blame_started_env)
  from t have "\<forall>es w2. run es (snd (git_reader_start blame_warned [''log''] SpawnOk)) = Some w2
           \<longrightarrow> length (completed w2) \<le> length (completed blame_warned) + 1
             \<and> (SpawnOk \<noteq> SpawnOk \<longrightarrow> completed w2 = completed blame_warned)"
    by blast
  then have c: "length (completed (snd (git_reader_start blame_warned [''log''] SpawnOk)))
       \<le> length (completed blame_warned) + 1"
    by (metis run.simps(1))
  from t have d: "procs (git_reader_close_process True blame_warned) = Map.empty"
    by blast
  from t have e: "card (dom (procs (snd (git_reader_start blame_warned [''log''] SpawnOk)))) \<le> 1"
    by blast
  from a b c d e hc show ?thesis
    by (simp add: s blame_warned_procs blame_started_env)
qed

text \<open>
  C9, as stated, fails. The child ends with wait status 256 (exit code 1) and its watch
  is dispatched; standard output reports its end; nothing was read from standard error,
  so the diagnostic buffer is empty; then the read of standard error fails hard. The
  completion carries the error of the read, of domain \<^verbatim>\<open>G_IO_CHANNEL_ERROR\<close>, and not the
  error of code \<^verbatim>\<open>GIT_ERROR_EXIT_STATUS\<close> with the fixed text.
\<close>

theorem blank_diagnostic_read_error_counterexample:
  "exit_statuses
     [ChildExits 1 256, ChildWatchDispatch 1, IoDispatch 2 G_IO_STATUS_EOF,
      IoDispatch 3 (G_IO_STATUS_ERROR pipe_broken)] = [256]
   \<and> chunks_on 3
     [ChildExits 1 256, ChildWatchDispatch 1, IoDispatch 2 G_IO_STATUS_EOF,
      IoDispatch 3 (G_IO_STATUS_ERROR pipe_broken)] = []
   \<and> map_option completed
     (run [ChildExits 1 256, ChildWatchDispatch 1, IoDispatch 2 G_IO_STATUS_EOF,
           IoDispatch 3 (G_IO_STATUS_ERROR pipe_broken)] blame_started) = Some [Some pipe_broken]
   \<and> map_option completed
     (run [ChildExits 1 256, ChildWatchDispatch 1, IoDispatch 2 G_IO_STATUS_EOF,
           IoDispatch 3 (G_IO_STATUS_ERROR pipe_broken)] blame_started) \<noteq>
       Some [Some (GError GIT_ERROR GIT_ERROR_EXIT_STATUS ''Error invoking git'')]
   \<and> gerror_domain pipe_broken = G_IO_CHANNEL_ERROR"
  by (simp add: run_eval git_reader_on_read_error_def exit_statuses_def chunks_on_def
      List.map_filter_def pipe_broken_def)

text \<open>
  C9, amended. When the child ends with a wait status other than 0, the invocation
  completes through the join of its three signals (child watch dispatched, end of
  stdout, end of stderr) and the diagnostic buffer is empty or holds whitespace only,
  the one emission of \<^verbatim>\<open>completed\<close> carries the error of domain \<^verbatim>\<open>GIT_ERROR\<close> and code
  \<^verbatim>\<open>GIT_ERROR_EXIT_STATUS\<close> whose message is the fixed text \<^verbatim>\<open>Error invoking git\<close>.
\<close>

theorem blank_diagnostic_generic_message:
  assumes "reachable w" and "w1 = snd (git_reader_start w arg SpawnOk)"
    and "run es w1 = Some w2" and "joined w1 es"
    and "\<forall>status\<in>set (exit_statuses es). status \<noteq> 0"
    and "\<forall>c\<in>set (concat (chunks_on (child_stderr_source (priv w1)) es)). isspace c"
  shows "completed w2 =
           completed w @ [Some (GError GIT_ERROR GIT_ERROR_EXIT_STATUS ''Error invoking git'')]"
proof -
  note j = invocation_joined [OF assms(1-4)]
  from j(1) have "last (exit_statuses es) \<in> set (exit_statuses es)" by simp
  with assms(5) have "last (exit_statuses es) \<noteq> 0" by blast
  from exit_error_blank [OF this assms(6)] j(2) show ?thesis by simp
qed

theorem blank_diagnostic_generic_message_witness:
  "run (exit_first '' \<newline>  '' 256) blame_started \<noteq> None
   \<and> completed (the (run (exit_first '' \<newline>  '' 256) blame_started))
       = [Some (GError GIT_ERROR GIT_ERROR_EXIT_STATUS ''Error invoking git'')]
   \<and> run (exit_first [] 256) blame_started \<noteq> None
   \<and> completed (the (run (exit_first [] 256) blame_started))
       = [Some (GError GIT_ERROR GIT_ERROR_EXIT_STATUS ''Error invoking git'')]"
proof -
  have 1: "run (exit_first '' \<newline>  '' 256) blame_started =
      Some (the (run (exit_first '' \<newline>  '' 256) blame_started))"
    using exit_first_runs by simp
  have 2: "run (exit_first [] 256) blame_started =
      Some (the (run (exit_first [] 256) blame_started))"
    using exit_first_runs by simp
  from blank_diagnostic_generic_message [OF reachable.new blame_started_def 1]
    blank_diagnostic_generic_message [OF reachable.new blame_started_def 2] exit_first_runs
  show ?thesis by (simp add: exit_first_trace git_reader_new_def blame_started_priv isspace_def)
qed

text \<open>
  C10. When \<^verbatim>\<open>git_reader_start\<close> is called on a reader that has a child and the spawn
  fails, the call leaves exactly the state of the teardown: the prior child is gone
  (signalled if it was running), its watches are removed and its pipe ends closed, no
  later state holds a further emission, and the diagnostic buffer still holds what it
  held before the call.
\<close>

theorem failed_restart_keeps_buffer:
  assumes "reachable w" "has_child (priv w)"
  shows "fst (git_reader_start w arg (SpawnErr e)) = Inl e
     \<and> snd (git_reader_start w arg (SpawnErr e)) = git_reader_close_process True w
     \<and> error_string (priv (snd (git_reader_start w arg (SpawnErr e)))) = error_string (priv w)
     \<and> \<not> has_child (priv (snd (git_reader_start w arg (SpawnErr e))))
     \<and> sources (snd (git_reader_start w arg (SpawnErr e))) = Map.empty
     \<and> procs (snd (git_reader_start w arg (SpawnErr e))) = Map.empty
     \<and> open_fds (snd (git_reader_start w arg (SpawnErr e))) = {}
     \<and> (\<forall>pid argv. procs w pid = Some (Proc argv Running)
           \<longrightarrow> pid \<in> set (signalled (snd (git_reader_start w arg (SpawnErr e)))))
     \<and> completed (snd (git_reader_start w arg (SpawnErr e))) = completed w
     \<and> (\<forall>es w'. run es (snd (git_reader_start w arg (SpawnErr e))) = Some w'
           \<longrightarrow> completed w' = completed w)"
proof -
  let ?w' = "git_reader_close_process True w"
  from assms have i: "reader_inv w" by (simp add: reachable_inv)
  then have i': "reader_inv ?w'" using inv_dispose by (simp add: git_reader_dispose_def)
  note idle = inv_close_kill [OF i]
  have "completed w' = completed w" if "run es ?w' = Some w'" for es w'
    using idle_run [OF i' idle(1) that] by (simp add: close_completed)
  then have "\<forall>es w'. run es ?w' = Some w' \<longrightarrow> completed w' = completed w"
    by blast
  moreover have "\<forall>pid argv. procs w pid = Some (Proc argv Running) \<longrightarrow> pid \<in> set (signalled ?w')"
    using close_kill_signalled [OF i] by blast
  ultimately show ?thesis
    by (simp add: start_failed idle close_completed close_error_string)
qed

theorem failed_restart_keeps_buffer_witness:
  "has_child (priv blame_warned)
   \<and> procs blame_warned 1 = Some (Proc [''git'', ''blame'', ''README''] Running)
   \<and> fst (git_reader_start blame_warned [''log''] (SpawnErr no_git)) = Inl no_git
   \<and> error_string (priv (snd (git_reader_start blame_warned [''log''] (SpawnErr no_git))))
       = ''warning: CRLF''
   \<and> procs (snd (git_reader_start blame_warned [''log''] (SpawnErr no_git))) = Map.empty
   \<and> 1 \<in> set (signalled (snd (git_reader_start blame_warned [''log''] (SpawnErr no_git))))
   \<and> completed (snd (git_reader_start blame_warned [''log''] (SpawnErr no_git)))
       = completed blame_warned"
proof -
  have hc: "has_child (priv blame_warned)"
    by (simp add: blame_warned_priv blame_started_priv)
  from failed_restart_keeps_buffer [OF blame_warned_reachable hc, of "[''log'']" no_git] hc
  show ?thesis by (auto simp: blame_warned_priv blame_started_priv blame_warned_procs blame_started_env)
qed

end
